theory Spec2Isabelle
  imports Complex_Main "HOL-Library.Word" "HOL-Library.List_Lexorder" "HOL-Library.AList"
begin

text \<open>
  The group call coordinator of \<open>src/webrtc/groupCall.ts\<close>, as functions on an explicit
  state. An exception is a value: a function that can throw returns \<open>error + 'a\<close>, with
  \<open>Inl\<close> the exception. Objects that the coordinator shares with its collaborators (call
  feeds and calls) live in a store and are named by references. What it does to its
  collaborators and observers (the events it emits, the methods it invokes on calls and
  feeds) is appended to a list of effects. Each function is one synchronous pass: the
  continuation of an awaited operation, a timer firing and the reaction of an observer
  to an event are passes of their own, and logging is left out.
\<close>

section \<open>Values of the host language\<close>

text \<open>
  A JavaScript string is the sequence of its UTF-16 code units. The relational operators
  on strings compare code unit by code unit, a proper prefix being smaller; that is the
  lexicographic order on lists over the (unsigned) order of 16-bit words.
\<close>

type_synonym jsstring = "16 word list"

definition str :: "string \<Rightarrow> jsstring" where
  "str s = map of_char s"

text \<open>
  A JavaScript number is an IEEE double. The model keeps the three special values and
  takes the finite ones as rationals: comparisons are exact, and the sums the coordinator
  forms on timestamps (integers below \<open>2^53\<close>) are exact as well. Rounding of other sums
  and quotients is not modelled.
\<close>

datatype jsnum = Num rat | PosInf | NegInf | NaN

fun js_lt :: "jsnum \<Rightarrow> jsnum \<Rightarrow> bool" where
  "js_lt (Num a) (Num b) = (a < b)"
| "js_lt (Num a) PosInf = True"
| "js_lt NegInf (Num b) = True"
| "js_lt NegInf PosInf = True"
| "js_lt _ _ = False"

definition js_gt :: "jsnum \<Rightarrow> jsnum \<Rightarrow> bool" where
  "js_gt a b = js_lt b a"

fun js_add :: "jsnum \<Rightarrow> jsnum \<Rightarrow> jsnum" where
  "js_add (Num a) (Num b) = Num (a + b)"
| "js_add NaN _ = NaN"
| "js_add _ NaN = NaN"
| "js_add PosInf NegInf = NaN"
| "js_add NegInf PosInf = NaN"
| "js_add PosInf _ = PosInf"
| "js_add _ PosInf = PosInf"
| "js_add NegInf _ = NegInf"
| "js_add _ NegInf = NegInf"

text \<open>\<open>Math.max\<close> of two numbers: \<open>NaN\<close> if either is.\<close>

fun js_max :: "jsnum \<Rightarrow> jsnum \<Rightarrow> jsnum" where
  "js_max NaN _ = NaN"
| "js_max _ NaN = NaN"
| "js_max a b = (if js_lt a b then b else a)"

text \<open>Division of a number by an array length.\<close>

fun js_div_length :: "jsnum \<Rightarrow> nat \<Rightarrow> jsnum" where
  "js_div_length NaN n = NaN"
| "js_div_length PosInf n = PosInf"
| "js_div_length NegInf n = NegInf"
| "js_div_length (Num a) n =
     (if n = 0 then (if a = 0 then NaN else if 0 < a then PosInf else NegInf)
      else Num (a / of_nat n))"

text \<open>Truthiness of a number: \<open>0\<close> and \<open>NaN\<close> are falsy.\<close>

fun js_truthy :: "jsnum \<Rightarrow> bool" where
  "js_truthy (Num a) = (a \<noteq> 0)"
| "js_truthy NaN = False"
| "js_truthy _ = True"

text \<open>
  The content of a room-state event is a JSON value; \<open>JUndefined\<close> is what reading an
  absent property yields. An object is the list of its own properties in insertion order.
\<close>

datatype json =
    JUndefined
  | JNull
  | JBool bool
  | JNumber jsnum
  | JString jsstring
  | JArray "json list"
  | JObject "(string \<times> json) list"

text \<open>What the coordinator throws: a \<open>TypeError\<close> of the run time, or one of its own errors.\<close>

datatype error =
    TypeError
  | CannotInitCallWithoutUserId
  | CannotDisposeCallWithoutUserId
  | CannotChangeCallFeedsWithoutUserId
  | FeedNotFound

definition nullish :: "json \<Rightarrow> bool" where
  "nullish v = (v = JUndefined \<or> v = JNull)"

text \<open>
  Reading the property \<open>k\<close> of a value that is neither \<open>undefined\<close> nor \<open>null\<close>. The
  coordinator reads only the wire names \<open>m.calls\<close>, \<open>m.call_id\<close>, \<open>m.devices\<close>,
  \<open>device_id\<close>, \<open>session_id\<close>, \<open>expires_ts\<close>, \<open>feeds\<close> and \<open>purpose\<close>, none of which a
  primitive or an array has.
\<close>

fun get :: "json \<Rightarrow> string \<Rightarrow> json" where
  "get (JObject kvs) k = (case map_of kvs k of Some v \<Rightarrow> v | None \<Rightarrow> JUndefined)"
| "get _ k = JUndefined"

text \<open>Reading a property of \<open>undefined\<close> or \<open>null\<close> throws a \<open>TypeError\<close>.\<close>

definition getProp :: "json \<Rightarrow> string \<Rightarrow> error + json" where
  "getProp v k = (if nullish v then Inl TypeError else Inr (get v k))"

text \<open>\<open>Array.isArray(x) ? x : []\<close>\<close>

fun arrayOrEmpty :: "json \<Rightarrow> json list" where
  "arrayOrEmpty (JArray xs) = xs"
| "arrayOrEmpty _ = []"

fun isArray :: "json \<Rightarrow> bool" where
  "isArray (JArray xs) = True"
| "isArray _ = False"

fun isString :: "json \<Rightarrow> bool" where
  "isString (JString x) = True"
| "isString _ = False"

text \<open>
  The fields of a device record that passed validation, at their validated types (the
  source casts the validated objects to \<open>IGroupCallRoomMemberDevice\<close>).
\<close>

fun asString :: "json \<Rightarrow> jsstring" where
  "asString (JString x) = x"
| "asString _ = []"

fun asNumber :: "json \<Rightarrow> jsnum" where
  "asNumber (JNumber x) = x"
| "asNumber _ = NaN"

text \<open>\<open>xs.filter(p)\<close> for a predicate that can throw.\<close>

fun filterE :: "('a \<Rightarrow> error + bool) \<Rightarrow> 'a list \<Rightarrow> error + 'a list" where
  "filterE p [] = Inr []"
| "filterE p (x # xs) =
     (case p x of
        Inl e \<Rightarrow> Inl e
      | Inr b \<Rightarrow> (case filterE p xs of
                   Inl e \<Rightarrow> Inl e
                 | Inr ys \<Rightarrow> Inr (if b then x # ys else ys)))"

section \<open>The client and the directionality rule\<close>

text \<open>
  What the coordinator reads from the outer client: \<open>getUserId()\<close>, \<open>getDeviceId()\<close>
  and \<open>getSessionId()\<close>.
\<close>

record matrix_client =
  getUserId :: jsstring
  getDeviceId :: jsstring
  getSessionId :: jsstring

text \<open>\<open>wantsOutgoingCall\<close> (groupCall.ts, lines 740-749).\<close>

definition wantsOutgoingCall :: "matrix_client \<Rightarrow> jsstring \<Rightarrow> jsstring \<Rightarrow> bool" where
  "wantsOutgoingCall cl userId deviceId =
     (let localUserId = getUserId cl; localDeviceId = getDeviceId cl
      in userId \<ge> localUserId \<and> (userId \<noteq> localUserId \<or> deviceId > localDeviceId))"

section \<open>Room, members, feeds and calls\<close>

record room_member =
  userId :: jsstring
  membership :: "jsstring option"

record member_state_event =
  getStateKey :: jsstring
  getContent :: json

text \<open>
  The room: \<open>getMember\<close> (\<open>None\<close> is \<open>null\<close>) and the member-state events of
  \<open>currentState.getStateEvents(EventType.GroupCallMemberPrefix)\<close>.
\<close>

record matrix_room =
  roomId :: jsstring
  getMember :: "jsstring \<Rightarrow> room_member option"
  memberStateEvents :: "member_state_event list"

text \<open>\<open>getStateEvents(EventType.GroupCallMemberPrefix, userId)\<close>: the event of that state key.\<close>

definition getMemberStateEvent :: "matrix_room \<Rightarrow> jsstring \<Rightarrow> member_state_event option" where
  "getMemberStateEvent r uid = find (\<lambda>e. getStateKey e = uid) (memberStateEvents r)"

text \<open>
  A key of a \<open>Map<RoomMember, ...>\<close>. \<open>getMember\<close> yields \<open>null\<close> and
  \<open>getOpponentMember\<close> yields \<open>undefined\<close> where there is no member; the source asserts
  both away with \<open>!\<close>, which does nothing at run time, so either can reach a map as a key.
  Member objects are compared by their fields.
\<close>

datatype member_key = MUndefined | MNull | MObj room_member

fun ofGetMember :: "room_member option \<Rightarrow> member_key" where
  "ofGetMember None = MNull"
| "ofGetMember (Some m) = MObj m"

fun ofOpponentMember :: "room_member option \<Rightarrow> member_key" where
  "ofOpponentMember None = MUndefined"
| "ofOpponentMember (Some m) = MObj m"

record ParticipantState =
  sessionId :: jsstring
  screensharing :: bool

type_synonym participant_view = "(member_key \<times> (jsstring \<times> ParticipantState) list) list"

datatype GroupCallState =
    LocalCallFeedUninitialized
  | InitializingLocalCallFeed
  | LocalCallFeedInitialized
  | Entered
  | Ended

text \<open>
  Modelled from the spec: the enum \<open>SDPStreamMetadataPurpose\<close> of callEventTypes.ts, with
  the wire strings of the room-state schema (\<open>m.usermedia\<close>, \<open>m.screenshare\<close>).
\<close>

datatype SDPStreamMetadataPurpose = Usermedia | Screenshare

fun purposeString :: "SDPStreamMetadataPurpose \<Rightarrow> jsstring" where
  "purposeString Usermedia = str ''m.usermedia''"
| "purposeString Screenshare = str ''m.screenshare''"

text \<open>
  Objects live in a store and are named by references. Of a \<open>CallFeed\<close> the coordinator
  reads the owner, the purpose, \<open>isLocal()\<close>, the volume samples and the two mute bits.
\<close>

type_synonym ref = nat

record call_feed =
  feed_userId :: jsstring
  feed_deviceId :: jsstring
  purpose :: SDPStreamMetadataPurpose
  isLocal :: bool
  speakingVolumeSamples :: "jsnum list"
  isAudioMuted :: bool
  isVideoMuted :: bool

text \<open>
  The states and hangup codes of a single call that the coordinator tells apart; every
  other one is \<open>OtherCallState\<close>, \<open>OtherErrorCode\<close>.
\<close>

datatype CallState = Ringing | Connected | CallState_Ended | OtherCallState

datatype CallErrorCode = UserHangup | Replaced | NewSession | SignallingFailed | OtherErrorCode

record matrix_call =
  callId :: jsstring
  call_roomId :: jsstring
  call_state :: CallState
  call_groupCallId :: "jsstring option"
  getOpponentMember :: "room_member option"
  getOpponentDeviceId :: jsstring
  getOpponentSessionId :: "jsstring option"
  invitee :: "jsstring option"
  hangupReason :: "CallErrorCode option"
  remoteUsermediaFeed :: "ref option"
  remoteScreensharingFeed :: "ref option"
  localUsermediaFeed :: "ref option"
  localScreensharingFeed :: "ref option"
  localUsermediaStream :: bool
  call_isMicrophoneMuted :: bool
  call_isLocalVideoMuted :: bool

datatype CallEvent = FeedsChanged | CallEvent_State | Hangup | CallEvent_Replaced

datatype track_kind = AudioTracks | VideoTracks

text \<open>
  What the coordinator does to its collaborators and observers, in order: the events it
  emits, and the methods it invokes on calls, feeds and timers.
\<close>

datatype effect =
    Emit_GroupCallStateChanged GroupCallState GroupCallState
  | Emit_ActiveSpeakerChanged "ref option"
  | Emit_CallsChanged
  | Emit_UserMediaFeedsChanged "ref list"
  | Emit_ScreenshareFeedsChanged "ref list"
  | Emit_LocalMuteStateChanged bool bool
  | Call_on ref CallEvent
  | Call_removeListener ref CallEvent ref
  | Call_set_isPtt ref bool
  | ReEmitter_reEmit ref
  | Call_hangup ref "CallErrorCode option" bool
  | Call_reject ref
  | Call_answerWithCallFeeds ref "ref list"
  | Call_placeCallWithCallFeeds ref "ref list" bool
  | Call_sendMetadataUpdate ref
  | Call_setMicrophoneMuted ref bool
  | Call_setLocalVideoMuted ref bool
  | Feed_setAudioVideoMuted ref "bool option" "bool option"
  | Feed_measureVolumeActivity ref bool
  | Feed_dispose ref
  | SetTracksEnabled ref track_kind bool
  | SetTransmitTimer
  | ClearTransmitTimer

text \<open>The closures \<open>initCall\<close> subscribes: each is bound to the call it was made for.\<close>

record ICallHandlers =
  handlersOf :: ref

section \<open>The group call\<close>

record group_call =
  client :: matrix_client
  room :: matrix_room
  groupCallId :: jsstring
  isPtt :: bool
  state :: GroupCallState
  enteredViaAnotherSession :: bool
  participants :: participant_view
  calls :: "(member_key \<times> (jsstring \<times> ref) list) list"
  callHandlers :: "(jsstring \<times> (jsstring \<times> ICallHandlers) list) list"
  retryCallCounts :: "(member_key \<times> (jsstring \<times> nat) list) list"
  userMediaFeeds :: "ref list"
  screenshareFeeds :: "ref list"
  activeSpeaker :: "ref option"
  localCallFeed :: "ref option"
  localScreenshareFeed :: "ref option"
  initWithAudioMuted :: bool
  initWithVideoMuted :: bool
  transmitTimer :: bool
  feedObj :: "ref \<Rightarrow> call_feed"
  callObj :: "ref \<Rightarrow> matrix_call"
  effects :: "effect list"

definition getLocalFeeds :: "group_call \<Rightarrow> ref list" where
  "getLocalFeeds s =
     (case localCallFeed s of Some f \<Rightarrow> [f] | None \<Rightarrow> [])
     @ (case localScreenshareFeed s of Some f \<Rightarrow> [f] | None \<Rightarrow> [])"

section \<open>The participant view\<close>

text \<open>\<open>calls.find(call => call["m.call_id"] === this.groupCallId)\<close>\<close>

fun findCall :: "jsstring \<Rightarrow> json list \<Rightarrow> error + json" where
  "findCall gid [] = Inr JUndefined"
| "findCall gid (c # cs) =
     (case getProp c ''m.call_id'' of
        Inl e \<Rightarrow> Inl e
      | Inr v \<Rightarrow> if v = JString gid then Inr c else findCall gid cs)"

text \<open>The \<open>m.devices\<close> of this call's entry in a member-state content (lines 1193-1196).\<close>

definition eventDevices :: "jsstring \<Rightarrow> json \<Rightarrow> error + json list" where
  "eventDevices gid content =
     (case getProp content ''m.calls'' of
        Inl e \<Rightarrow> Inl e
      | Inr cs \<Rightarrow>
          (case findCall gid (arrayOrEmpty cs) of
             Inl e \<Rightarrow> Inl e
           | Inr call \<Rightarrow> Inr (if nullish call then [] else arrayOrEmpty (get call ''m.devices''))))"

text \<open>The filter on invalid and expired devices (lines 1199-1205 and 1281-1287).\<close>

definition validDevice :: "int \<Rightarrow> json \<Rightarrow> error + bool" where
  "validDevice now d =
     (case getProp d ''device_id'' of
        Inl e \<Rightarrow> Inl e
      | Inr device_id \<Rightarrow>
          Inr (isString device_id
               \<and> isString (get d ''session_id'')
               \<and> (case get d ''expires_ts'' of
                     JNumber expires_ts \<Rightarrow> js_gt expires_ts (Num (of_int now))
                   | _ \<Rightarrow> False)
               \<and> isArray (get d ''feeds'')))"

text \<open>\<open>d.feeds.some(f => f.purpose === SDPStreamMetadataPurpose.Screenshare)\<close>\<close>

fun someScreenshare :: "json list \<Rightarrow> error + bool" where
  "someScreenshare [] = Inr False"
| "someScreenshare (f # fs) =
     (case getProp f ''purpose'' of
        Inl e \<Rightarrow> Inl e
      | Inr p \<Rightarrow> if p = JString (purposeString Screenshare) then Inr True else someScreenshare fs)"

text \<open>The loop over the valid devices of one member (lines 1217-1223).\<close>

fun addDevices ::
  "json list \<Rightarrow> (jsstring \<times> ParticipantState) list \<times> jsnum
     \<Rightarrow> error + ((jsstring \<times> ParticipantState) list \<times> jsnum)" where
  "addDevices [] acc = Inr acc"
| "addDevices (d # ds) (deviceMap, nextExpiration) =
     (case someScreenshare (arrayOrEmpty (get d ''feeds'')) of
        Inl e \<Rightarrow> Inl e
      | Inr sc \<Rightarrow>
          addDevices ds
            (AList.update (asString (get d ''device_id''))
               \<lparr>sessionId = asString (get d ''session_id''), screensharing = sc\<rparr> deviceMap,
             if js_lt (asNumber (get d ''expires_ts'')) nextExpiration
             then asNumber (get d ''expires_ts'') else nextExpiration))"

text \<open>The local echo for the case that we have not entered (lines 1207-1210).\<close>

definition dropLocalDevice :: "group_call \<Rightarrow> bool \<Rightarrow> room_member option \<Rightarrow> json list \<Rightarrow> json list" where
  "dropLocalDevice s entered member validDevices =
     (if \<not> entered \<and> map_option userId member = Some (getUserId (client s))
      then filter (\<lambda>d. get d ''device_id'' \<noteq> JString (getDeviceId (client s))) validDevices
      else validDevices)"

text \<open>The loop over the member-state events (lines 1191-1225).\<close>

fun participantsOfEvents ::
  "group_call \<Rightarrow> int \<Rightarrow> bool \<Rightarrow> member_state_event list \<Rightarrow> participant_view \<times> jsnum
     \<Rightarrow> error + (participant_view \<times> jsnum)" where
  "participantsOfEvents s now entered [] acc = Inr acc"
| "participantsOfEvents s now entered (e # es) (view, nextExpiration) =
     (let member = getMember (room s) (getStateKey e) in
      case eventDevices (groupCallId s) (getContent e) of
        Inl err \<Rightarrow> Inl err
      | Inr devices \<Rightarrow>
          (case filterE (validDevice now) devices of
             Inl err \<Rightarrow> Inl err
           | Inr valid \<Rightarrow>
               (let validDevices = dropLocalDevice s entered member valid in
                case member of
                  None \<Rightarrow> participantsOfEvents s now entered es (view, nextExpiration)
                | Some m \<Rightarrow>
                    if validDevices \<noteq> [] \<and> membership m = Some (str ''join'')
                    then (case addDevices validDevices ([], nextExpiration) of
                            Inl err \<Rightarrow> Inl err
                          | Inr (deviceMap, nextExpiration') \<Rightarrow>
                              participantsOfEvents s now entered es
                                (AList.update (MObj m) deviceMap view, nextExpiration'))
                    else participantsOfEvents s now entered es (view, nextExpiration))))"

text \<open>The local echo for the case that we have entered (lines 1227-1242).\<close>

definition localEcho :: "group_call \<Rightarrow> participant_view \<Rightarrow> participant_view" where
  "localEcho s view =
     (let localMember = ofGetMember (getMember (room s) (getUserId (client s)));
          echo = \<lparr>sessionId = getSessionId (client s),
                  screensharing = list_ex (\<lambda>f. purpose (feedObj s f) = Screenshare) (getLocalFeeds s)\<rparr>
      in case map_of view localMember of
           None \<Rightarrow> AList.update localMember [(getDeviceId (client s), echo)] view
         | Some deviceMap \<Rightarrow>
             if map_of deviceMap (getDeviceId (client s)) = None
             then AList.update localMember
                    (AList.update (getDeviceId (client s)) echo deviceMap) view
             else view)"

text \<open>
  \<open>updateParticipants\<close> (lines 1175-1248) up to the assignment of the view: the value it
  hands to the \<open>participants\<close> setter, and the earliest expiry it found (\<open>Infinity\<close> when
  none, and then no timer is set). \<open>now\<close> is what \<open>Date.now()\<close> returns.
\<close>

definition updateParticipants :: "group_call \<Rightarrow> int \<Rightarrow> error + (participant_view \<times> jsnum)" where
  "updateParticipants s now =
     (if state s = Ended then Inr ([], PosInf)
      else
        let entered = (state s = Entered \<or> enteredViaAnotherSession s) in
        case participantsOfEvents s now entered (memberStateEvents (room s)) ([], PosInf) of
          Inl err \<Rightarrow> Inl err
        | Inr (view, nextExpiration) \<Rightarrow>
            Inr (if entered then localEcho s view else view, nextExpiration))"

section \<open>The membership publisher\<close>

text \<open>\<open>DEVICE_TIMEOUT\<close> (line 151): one hour, in milliseconds.\<close>

definition DEVICE_TIMEOUT :: int where
  "DEVICE_TIMEOUT = 1000 * 60 * 60"

text \<open>The request handed to \<open>client.sendStateEvent\<close> for the member-state type of the room.\<close>

record state_event_write =
  write_content :: json
  write_stateKey :: jsstring
  write_keepAlive :: bool

text \<open>The loop that parts this call's entry from the others (lines 1267-1276).\<close>

fun partitionCalls ::
  "jsstring \<Rightarrow> json list \<Rightarrow> json option \<times> json list \<Rightarrow> error + (json option \<times> json list)" where
  "partitionCalls gid [] acc = Inr acc"
| "partitionCalls gid (c # cs) (call, otherCalls) =
     (case getProp c ''m.call_id'' of
        Inl e \<Rightarrow> Inl e
      | Inr v \<Rightarrow>
          if v = JString gid then partitionCalls gid cs (Some c, otherCalls)
          else partitionCalls gid cs (call, otherCalls @ [c]))"

text \<open>The own properties an object spread \<open>{...call}\<close> copies.\<close>

fun spread :: "json \<Rightarrow> (string \<times> json) list" where
  "spread (JObject kvs) = kvs"
| "spread _ = []"

text \<open>
  \<open>updateDevices\<close> (lines 1256-1306): \<open>None\<close> when nothing is written, else the write.
\<close>

definition updateDevices ::
  "group_call \<Rightarrow> int \<Rightarrow> (json list \<Rightarrow> json list option) \<Rightarrow> bool
     \<Rightarrow> error + state_event_write option" where
  "updateDevices s now fn keepAlive =
     (let localUserId = getUserId (client s);
          event = getMemberStateEvent (room s) localUserId;
          content = (case event of
                       None \<Rightarrow> JObject []
                     | Some e \<Rightarrow> if nullish (getContent e) then JObject [] else getContent e);
          cs = arrayOrEmpty (get content ''m.calls'')
      in case partitionCalls (groupCallId s) cs (None, []) of
           Inl e \<Rightarrow> Inl e
         | Inr (found, otherCalls) \<Rightarrow>
             (let call = (case found of None \<Rightarrow> JObject [] | Some c \<Rightarrow> c);
                  devices = arrayOrEmpty (get call ''m.devices'')
              in case filterE (validDevice now) devices of
                   Inl e \<Rightarrow> Inl e
                 | Inr validDevices \<Rightarrow>
                     (case fn validDevices of
                        None \<Rightarrow> Inr None
                      | Some newDevices \<Rightarrow>
                          (let newCalls = otherCalls @
                                 (if newDevices \<noteq> []
                                  then [JObject (AList.update ''m.devices'' (JArray newDevices)
                                          (AList.update ''m.call_id'' (JString (groupCallId s))
                                             (spread call)))]
                                  else []);
                               newContent = JObject [(''m.calls'', JArray newCalls)]
                           in Inr (Some \<lparr>write_content = newContent,
                                          write_stateKey = localUserId,
                                          write_keepAlive = keepAlive\<rparr>)))))"

text \<open>
  The mutation of \<open>addDeviceToMemberState\<close> (lines 1308-1319); \<open>now'\<close> is what its own
  \<open>Date.now()\<close> returns.
\<close>

definition addDevice :: "group_call \<Rightarrow> int \<Rightarrow> json list \<Rightarrow> json list option" where
  "addDevice s now' devices =
     Some (filter (\<lambda>d. get d ''device_id'' \<noteq> JString (getDeviceId (client s))) devices
           @ [JObject
                [(''device_id'', JString (getDeviceId (client s))),
                 (''session_id'', JString (getSessionId (client s))),
                 (''expires_ts'', JNumber (Num (of_int (now' + DEVICE_TIMEOUT)))),
                 (''feeds'', JArray (map (\<lambda>feed. JObject
                     [(''purpose'', JString (purposeString (purpose (feedObj s feed))))])
                     (getLocalFeeds s)))]])"

definition addDeviceToMemberState ::
  "group_call \<Rightarrow> int \<Rightarrow> int \<Rightarrow> error + state_event_write option" where
  "addDeviceToMemberState s now now' = updateDevices s now (addDevice s now') False"

text \<open>The mutation of \<open>updateMemberState\<close> outside \<open>Entered\<close> (lines 1343-1346).\<close>

definition removeDevice :: "group_call \<Rightarrow> json list \<Rightarrow> json list option" where
  "removeDevice s devices =
     Some (filter (\<lambda>d. get d ''device_id'' \<noteq> JString (getDeviceId (client s))) devices)"

text \<open>
  A device as \<open>client.getDevices()\<close> lists it (\<open>IMyDevice\<close>); \<open>last_seen_ts\<close> is optional.
\<close>

record my_device =
  my_device_id :: jsstring
  last_seen_ts :: "jsnum option"

text \<open>\<open>new Map(myDevices.map(d => [d.device_id, d]))\<close>: a later entry replaces an earlier one.\<close>

definition myDeviceMap :: "my_device list \<Rightarrow> (jsstring \<times> my_device) list" where
  "myDeviceMap myDevices = fold (\<lambda>d m. AList.update (my_device_id d) d m) myDevices []"

text \<open>The predicate of the filter in \<open>cleanMemberState\<close> (lines 1360-1367).\<close>

definition keepDevice :: "group_call \<Rightarrow> my_device list \<Rightarrow> json \<Rightarrow> bool" where
  "keepDevice s myDevices d =
     (let device = (case get d ''device_id'' of
                      JString i \<Rightarrow> map_of (myDeviceMap myDevices) i
                    | _ \<Rightarrow> None)
      in (case device of None \<Rightarrow> False | Some dev \<Rightarrow> last_seen_ts dev \<noteq> None)
         \<and> \<not> (get d ''device_id'' = JString (getDeviceId (client s))
              \<and> state s \<noteq> Entered
              \<and> \<not> enteredViaAnotherSession s))"

definition cleanDevices :: "group_call \<Rightarrow> my_device list \<Rightarrow> json list \<Rightarrow> json list option" where
  "cleanDevices s myDevices devices =
     (let newDevices = filter (keepDevice s myDevices) devices
      in if length newDevices = length devices then None else Some newDevices)"

text \<open>\<open>cleanMemberState\<close> (lines 1354-1372), given the answer of \<open>client.getDevices()\<close>.\<close>

definition cleanMemberState ::
  "group_call \<Rightarrow> int \<Rightarrow> my_device list \<Rightarrow> error + state_event_write option" where
  "cleanMemberState s now myDevices = updateDevices s now (cleanDevices s myDevices) False"

section \<open>Effects and iteration over the calls\<close>

definition eff :: "effect \<Rightarrow> group_call \<Rightarrow> group_call" where
  "eff e s = s\<lparr>effects := effects s @ [e]\<rparr>"

text \<open>The calls \<open>forEachCall\<close> (lines 307-311) visits, in its order.\<close>

definition forEachCall :: "group_call \<Rightarrow> ref list" where
  "forEachCall s = concat (map (\<lambda>entry. map snd (snd entry)) (calls s))"

section \<open>Local media\<close>

text \<open>\<open>isLocalVideoMuted\<close> and \<open>isMicrophoneMuted\<close> (lines 497-511).\<close>

definition isLocalVideoMuted :: "group_call \<Rightarrow> bool" where
  "isLocalVideoMuted s =
     (case localCallFeed s of Some f \<Rightarrow> isVideoMuted (feedObj s f) | None \<Rightarrow> True)"

definition isMicrophoneMuted :: "group_call \<Rightarrow> bool" where
  "isMicrophoneMuted s =
     (case localCallFeed s of Some f \<Rightarrow> isAudioMuted (feedObj s f) | None \<Rightarrow> True)"

text \<open>
  Modelled from the spec: \<open>CallFeed.setAudioVideoMuted(audioMuted, videoMuted)\<close> of
  callFeed.ts, through which "the mute bits flow into" a feed; it sets each bit whose
  argument is not \<open>null\<close>.
\<close>

definition setAudioVideoMuted :: "ref \<Rightarrow> bool option \<Rightarrow> bool option \<Rightarrow> group_call \<Rightarrow> group_call" where
  "setAudioVideoMuted f a v s =
     eff (Feed_setAudioVideoMuted f a v)
       (s\<lparr>feedObj := (feedObj s)
           (f := (feedObj s f)
              \<lparr>isAudioMuted := (case a of None \<Rightarrow> isAudioMuted (feedObj s f) | Some b \<Rightarrow> b),
               isVideoMuted := (case v of None \<Rightarrow> isVideoMuted (feedObj s f) | Some b \<Rightarrow> b)\<rparr>)\<rparr>)"

text \<open>The helper \<open>sendUpdates\<close> of \<open>setMicrophoneMuted\<close> (lines 543-550); a failed update is logged.\<close>

definition sendUpdates :: "group_call \<Rightarrow> group_call" where
  "sendUpdates s = fold (\<lambda>c. eff (Call_sendMetadataUpdate c)) (forEachCall s) s"

text \<open>Line 541: \<open>call.localUsermediaFeed?.setAudioVideoMuted(muted, null)\<close> on every call.\<close>

definition muteCallFeeds :: "bool \<Rightarrow> group_call \<Rightarrow> group_call" where
  "muteCallFeeds muted s =
     fold (\<lambda>c t. case localUsermediaFeed (callObj t c) of
                    None \<Rightarrow> t
                  | Some f \<Rightarrow> setAudioVideoMuted f (Some muted) None t)
       (forEachCall s) s"

text \<open>
  Line 568: \<open>setTracksEnabled(call.localUsermediaFeed!.stream.getAudioTracks(), !muted)\<close>
  on every call; reading \<open>stream\<close> of \<open>undefined\<close> throws.
\<close>

fun enableCallTracks :: "bool \<Rightarrow> ref list \<Rightarrow> group_call \<Rightarrow> error + group_call" where
  "enableCallTracks enabled [] s = Inr s"
| "enableCallTracks enabled (c # cs) s =
     (case localUsermediaFeed (callObj s c) of
        None \<Rightarrow> Inl TypeError
      | Some f \<Rightarrow> enableCallTracks enabled cs (eff (SetTracksEnabled f AudioTracks enabled) s))"

text \<open>
  \<open>setMicrophoneMuted\<close> (lines 518-574), run without interleaving; \<open>hasAudioDevice\<close> is the
  answer of the media handler.
\<close>

definition setMicrophoneMuted :: "bool \<Rightarrow> bool \<Rightarrow> group_call \<Rightarrow> error + (bool \<times> group_call)" where
  "setMicrophoneMuted hasAudioDevice muted s =
     (if \<not> muted \<and> \<not> hasAudioDevice then Inr (False, s)
      else
        let sendUpdatesBefore = (\<not> muted \<and> isPtt s);
            s1 = (if isPtt s
                  then (if \<not> muted \<and> isMicrophoneMuted s
                        then eff SetTransmitTimer (s\<lparr>transmitTimer := True\<rparr>)
                        else if muted \<and> \<not> isMicrophoneMuted s
                        then (if transmitTimer s then eff ClearTransmitTimer s else s)
                               \<lparr>transmitTimer := False\<rparr>
                        else s)
                  else s);
            s2 = muteCallFeeds muted s1;
            s3 = (if sendUpdatesBefore then sendUpdates s2 else s2);
            s4 = (case localCallFeed s3 of
                    Some f \<Rightarrow> eff (SetTracksEnabled f AudioTracks (\<not> muted))
                               (setAudioVideoMuted f (Some muted) None s3)
                  | None \<Rightarrow> s3\<lparr>initWithAudioMuted := muted\<rparr>)
        in case enableCallTracks (\<not> muted) (forEachCall s4) s4 of
             Inl e \<Rightarrow> Inl e
           | Inr s5 \<Rightarrow>
               (let s6 = eff (Emit_LocalMuteStateChanged muted (isLocalVideoMuted s5)) s5;
                    s7 = (if sendUpdatesBefore then s6 else sendUpdates s6)
                in Inr (True, s7)))"

text \<open>\<open>setLocalVideoMuted\<close> (lines 581-606).\<close>

definition setLocalVideoMuted :: "bool \<Rightarrow> bool \<Rightarrow> group_call \<Rightarrow> error + (bool \<times> group_call)" where
  "setLocalVideoMuted hasVideoDevice muted s =
     (if \<not> muted \<and> \<not> hasVideoDevice then Inr (False, s)
      else
        let s1 = (case localCallFeed s of
                    Some f \<Rightarrow> eff (SetTracksEnabled f VideoTracks (\<not> muted))
                               (setAudioVideoMuted f None (Some muted) s)
                  | None \<Rightarrow> s\<lparr>initWithVideoMuted := muted\<rparr>);
            s2 = fold (\<lambda>c. eff (Call_setLocalVideoMuted c muted)) (forEachCall s1) s1;
            s3 = eff (Emit_LocalMuteStateChanged (isMicrophoneMuted s2) muted) s2
        in Inr (True, s3))"

section \<open>The feed registry\<close>

fun findIndex :: "('a \<Rightarrow> bool) \<Rightarrow> 'a list \<Rightarrow> nat option" where
  "findIndex p [] = None"
| "findIndex p (x # xs) =
     (if p x then Some 0 else map_option Suc (findIndex p xs))"

definition feedHasKey :: "group_call \<Rightarrow> jsstring \<Rightarrow> jsstring \<Rightarrow> ref \<Rightarrow> bool" where
  "feedHasKey s uid did f =
     (feed_userId (feedObj s f) = uid \<and> feed_deviceId (feedObj s f) = did)"

definition getUserMediaFeed :: "group_call \<Rightarrow> jsstring \<Rightarrow> jsstring \<Rightarrow> ref option" where
  "getUserMediaFeed s uid did = find (feedHasKey s uid did) (userMediaFeeds s)"

definition addUserMediaFeed :: "ref \<Rightarrow> group_call \<Rightarrow> group_call" where
  "addUserMediaFeed callFeed s =
     (let s1 = s\<lparr>userMediaFeeds := userMediaFeeds s @ [callFeed]\<rparr>;
          s2 = eff (Feed_measureVolumeActivity callFeed True) s1
      in eff (Emit_UserMediaFeedsChanged (userMediaFeeds s2)) s2)"

definition replaceUserMediaFeed :: "ref \<Rightarrow> ref \<Rightarrow> group_call \<Rightarrow> error + group_call" where
  "replaceUserMediaFeed existingFeed replacementFeed s =
     (case findIndex (feedHasKey s (feed_userId (feedObj s existingFeed))
                        (feed_deviceId (feedObj s existingFeed))) (userMediaFeeds s) of
        None \<Rightarrow> Inl FeedNotFound
      | Some feedIndex \<Rightarrow>
          (let s1 = s\<lparr>userMediaFeeds := (userMediaFeeds s)[feedIndex := replacementFeed]\<rparr>;
               s2 = eff (Feed_dispose existingFeed) s1;
               s3 = eff (Feed_measureVolumeActivity replacementFeed True) s2
           in Inr (eff (Emit_UserMediaFeedsChanged (userMediaFeeds s3)) s3)))"

definition removeUserMediaFeed :: "ref \<Rightarrow> group_call \<Rightarrow> error + group_call" where
  "removeUserMediaFeed callFeed s =
     (case findIndex (feedHasKey s (feed_userId (feedObj s callFeed))
                        (feed_deviceId (feedObj s callFeed))) (userMediaFeeds s) of
        None \<Rightarrow> Inl FeedNotFound
      | Some feedIndex \<Rightarrow>
          (let s1 = s\<lparr>userMediaFeeds :=
                        take feedIndex (userMediaFeeds s) @ drop (Suc feedIndex) (userMediaFeeds s)\<rparr>;
               s2 = eff (Feed_dispose callFeed) s1;
               s3 = eff (Emit_UserMediaFeedsChanged (userMediaFeeds s2)) s2
           in Inr (if activeSpeaker s3 = Some callFeed
                   then (let s4 = s3\<lparr>activeSpeaker :=
                                      (case userMediaFeeds s3 of [] \<Rightarrow> None | f # fs \<Rightarrow> Some f)\<rparr>
                         in eff (Emit_ActiveSpeakerChanged (activeSpeaker s4)) s4)
                   else s3)))"

definition getScreenshareFeed :: "group_call \<Rightarrow> jsstring \<Rightarrow> jsstring \<Rightarrow> ref option" where
  "getScreenshareFeed s uid did = find (feedHasKey s uid did) (screenshareFeeds s)"

definition addScreenshareFeed :: "ref \<Rightarrow> group_call \<Rightarrow> group_call" where
  "addScreenshareFeed callFeed s =
     (let s1 = s\<lparr>screenshareFeeds := screenshareFeeds s @ [callFeed]\<rparr>
      in eff (Emit_ScreenshareFeedsChanged (screenshareFeeds s1)) s1)"

definition replaceScreenshareFeed :: "ref \<Rightarrow> ref \<Rightarrow> group_call \<Rightarrow> error + group_call" where
  "replaceScreenshareFeed existingFeed replacementFeed s =
     (case findIndex (feedHasKey s (feed_userId (feedObj s existingFeed))
                        (feed_deviceId (feedObj s existingFeed))) (screenshareFeeds s) of
        None \<Rightarrow> Inl FeedNotFound
      | Some feedIndex \<Rightarrow>
          (let s1 = s\<lparr>screenshareFeeds := (screenshareFeeds s)[feedIndex := replacementFeed]\<rparr>;
               s2 = eff (Feed_dispose existingFeed) s1
           in Inr (eff (Emit_ScreenshareFeedsChanged (screenshareFeeds s2)) s2)))"

definition removeScreenshareFeed :: "ref \<Rightarrow> group_call \<Rightarrow> error + group_call" where
  "removeScreenshareFeed callFeed s =
     (case findIndex (feedHasKey s (feed_userId (feedObj s callFeed))
                        (feed_deviceId (feedObj s callFeed))) (screenshareFeeds s) of
        None \<Rightarrow> Inl FeedNotFound
      | Some feedIndex \<Rightarrow>
          (let s1 = s\<lparr>screenshareFeeds :=
                        take feedIndex (screenshareFeeds s) @ drop (Suc feedIndex) (screenshareFeeds s)\<rparr>;
               s2 = eff (Feed_dispose callFeed) s1
           in Inr (eff (Emit_ScreenshareFeedsChanged (screenshareFeeds s2)) s2)))"

section \<open>The active speaker\<close>

text \<open>
  \<open>speakingVolumeSamples.reduce((acc, volume) => acc + Math.max(volume, SPEAKING_THRESHOLD))\<close>:
  a \<open>reduce\<close> with no initial value starts from the first element and throws on an empty
  array.
\<close>

definition reduceSamples :: "jsnum \<Rightarrow> jsnum list \<Rightarrow> error + jsnum" where
  "reduceSamples threshold samples =
     (case samples of
        [] \<Rightarrow> Inl TypeError
      | x # xs \<Rightarrow> Inr (fold (\<lambda>volume acc. js_add acc (js_max volume threshold)) xs x))"

text \<open>The loop of \<open>onActiveSpeakerLoop\<close> over the user-media feeds (lines 1109-1121).\<close>

fun topSpeaker ::
  "group_call \<Rightarrow> jsnum \<Rightarrow> ref list \<Rightarrow> jsnum option \<times> ref option
     \<Rightarrow> error + (jsnum option \<times> ref option)" where
  "topSpeaker s threshold [] acc = Inr acc"
| "topSpeaker s threshold (callFeed # rest) (topAvg, nextActiveSpeaker) =
     (if isLocal (feedObj s callFeed) \<and> length (userMediaFeeds s) > 1
      then topSpeaker s threshold rest (topAvg, nextActiveSpeaker)
      else
        case reduceSamples threshold (speakingVolumeSamples (feedObj s callFeed)) of
          Inl e \<Rightarrow> Inl e
        | Inr total' \<Rightarrow>
            (let avg = js_div_length total' (length (speakingVolumeSamples (feedObj s callFeed)))
             in if (case topAvg of None \<Rightarrow> True
                    | Some t \<Rightarrow> if js_truthy t then js_gt avg t else True)
                then topSpeaker s threshold rest (Some avg, Some callFeed)
                else topSpeaker s threshold rest (topAvg, nextActiveSpeaker)))"

text \<open>
  \<open>onActiveSpeakerLoop\<close> (lines 1105-1127); \<open>threshold\<close> is the constant
  \<open>SPEAKING_THRESHOLD\<close> of callFeed.ts.
\<close>

definition onActiveSpeakerLoop :: "jsnum \<Rightarrow> group_call \<Rightarrow> error + group_call" where
  "onActiveSpeakerLoop threshold s =
     (case topSpeaker s threshold (userMediaFeeds s) (None, None) of
        Inl e \<Rightarrow> Inl e
      | Inr (topAvg, nextActiveSpeaker) \<Rightarrow>
          (case nextActiveSpeaker of
             None \<Rightarrow> Inr s
           | Some f \<Rightarrow>
               if activeSpeaker s \<noteq> Some f
                  \<and> (case topAvg of None \<Rightarrow> False
                      | Some t \<Rightarrow> js_truthy t \<and> js_gt t threshold)
               then Inr (eff (Emit_ActiveSpeakerChanged (Some f)) (s\<lparr>activeSpeaker := Some f\<rparr>))
               else Inr s))"

text \<open>
  The score as the spec words it, for comparison: the arithmetic mean of the samples, every
  sample clamped below at the threshold.
\<close>

definition spec_clampedMean :: "jsnum \<Rightarrow> jsnum list \<Rightarrow> jsnum" where
  "spec_clampedMean threshold samples =
     js_div_length (fold (\<lambda>volume acc. js_add acc (js_max volume threshold)) samples (Num 0))
       (length samples)"

section \<open>The call handler table\<close>

text \<open>
  \<open>getCallUserId\<close> (lines 153-155): \<open>call.getOpponentMember()?.userId || call.invitee || null\<close>;
  the empty string is falsy.
\<close>

definition getCallUserId :: "matrix_call \<Rightarrow> jsstring option" where
  "getCallUserId c =
     (case (case getOpponentMember c of
              None \<Rightarrow> None
            | Some m \<Rightarrow> if userId m = [] then None else Some (userId m)) of
        Some u \<Rightarrow> Some u
      | None \<Rightarrow> (case invitee c of
                   None \<Rightarrow> None
                 | Some i \<Rightarrow> if i = [] then None else Some i))"

text \<open>One half of \<open>onCallFeedsChanged\<close>: a remote feed of the call against the registry's.\<close>

definition syncUserMediaFeed :: "ref option \<Rightarrow> ref option \<Rightarrow> group_call \<Rightarrow> error + group_call" where
  "syncUserMediaFeed currentFeed remoteFeed s =
     (if remoteFeed = currentFeed then Inr s
      else case (currentFeed, remoteFeed) of
             (None, Some r) \<Rightarrow> Inr (addUserMediaFeed r s)
           | (Some c, Some r) \<Rightarrow> replaceUserMediaFeed c r s
           | (Some c, None) \<Rightarrow> removeUserMediaFeed c s
           | (None, None) \<Rightarrow> Inr s)"

definition syncScreenshareFeed :: "ref option \<Rightarrow> ref option \<Rightarrow> group_call \<Rightarrow> error + group_call" where
  "syncScreenshareFeed currentFeed remoteFeed s =
     (if remoteFeed = currentFeed then Inr s
      else case (currentFeed, remoteFeed) of
             (None, Some r) \<Rightarrow> Inr (addScreenshareFeed r s)
           | (Some c, Some r) \<Rightarrow> replaceScreenshareFeed c r s
           | (Some c, None) \<Rightarrow> removeScreenshareFeed c s
           | (None, None) \<Rightarrow> Inr s)"

text \<open>\<open>onCallFeedsChanged\<close> (lines 961-996).\<close>

definition onCallFeedsChanged :: "ref \<Rightarrow> group_call \<Rightarrow> error + group_call" where
  "onCallFeedsChanged c s =
     (case getCallUserId (callObj s c) of
        None \<Rightarrow> Inl CannotChangeCallFeedsWithoutUserId
      | Some opponentMemberId \<Rightarrow>
          (let opponentDeviceId = getOpponentDeviceId (callObj s c)
           in case syncUserMediaFeed (getUserMediaFeed s opponentMemberId opponentDeviceId)
                     (remoteUsermediaFeed (callObj s c)) s of
                Inl e \<Rightarrow> Inl e
              | Inr s1 \<Rightarrow>
                  syncScreenshareFeed (getScreenshareFeed s1 opponentMemberId opponentDeviceId)
                    (remoteScreensharingFeed (callObj s1 c)) s1))"

text \<open>\<open>initCall\<close> (lines 876-914).\<close>

definition initCall :: "ref \<Rightarrow> group_call \<Rightarrow> error + group_call" where
  "initCall c s =
     (case getCallUserId (callObj s c) of
        None \<Rightarrow> Inl CannotInitCallWithoutUserId
      | Some opponentMemberId \<Rightarrow>
          (let deviceMap = (case map_of (callHandlers s) opponentMemberId of
                              None \<Rightarrow> []
                            | Some m \<Rightarrow> m);
               s1 = s\<lparr>callHandlers :=
                       AList.update opponentMemberId
                         (AList.update (getOpponentDeviceId (callObj s c)) \<lparr>handlersOf = c\<rparr> deviceMap)
                         (callHandlers s)\<rparr>;
               s2 = eff (Call_on c CallEvent_Replaced)
                      (eff (Call_on c Hangup)
                        (eff (Call_on c CallEvent_State)
                          (eff (Call_on c FeedsChanged) s1)));
               s3 = eff (ReEmitter_reEmit c) (eff (Call_set_isPtt c (isPtt s2)) s2)
           in onCallFeedsChanged c s3))"

text \<open>
  \<open>disposeCall\<close> (lines 916-959). \<open>deviceMap.get(opponentDeviceId)!\<close> is destructured, which
  throws when there is no entry; the entry that is then deleted from \<open>deviceMap\<close> is the one
  keyed \<open>opponentMemberId\<close> (line 937).
\<close>

definition disposeCall :: "ref \<Rightarrow> CallErrorCode option \<Rightarrow> group_call \<Rightarrow> error + group_call" where
  "disposeCall c reason s =
     (case getCallUserId (callObj s c) of
        None \<Rightarrow> Inl CannotDisposeCallWithoutUserId
      | Some opponentMemberId \<Rightarrow>
          (let opponentDeviceId = getOpponentDeviceId (callObj s c)
           in case map_of (callHandlers s) opponentMemberId of
                None \<Rightarrow> Inl TypeError
              | Some deviceMap \<Rightarrow>
                  (case map_of deviceMap opponentDeviceId of
                     None \<Rightarrow> Inl TypeError
                   | Some h \<Rightarrow>
                       (let s1 = eff (Call_removeListener c CallEvent_Replaced (handlersOf h))
                                  (eff (Call_removeListener c Hangup (handlersOf h))
                                    (eff (Call_removeListener c CallEvent_State (handlersOf h))
                                      (eff (Call_removeListener c FeedsChanged (handlersOf h)) s)));
                            deviceMap' = AList.delete opponentMemberId deviceMap;
                            s2 = s1\<lparr>callHandlers :=
                                    (if deviceMap' = []
                                     then AList.delete opponentMemberId (callHandlers s1)
                                     else AList.update opponentMemberId deviceMap' (callHandlers s1))\<rparr>
                        in if hangupReason (callObj s2 c) = Some Replaced then Inr s2
                           else
                             (let s3 = (if call_state (callObj s2 c) = CallState_Ended then s2
                                        else eff (Call_hangup c reason False) s2)
                              in case (case getUserMediaFeed s3 opponentMemberId opponentDeviceId of
                                         None \<Rightarrow> Inr s3
                                       | Some f \<Rightarrow> removeUserMediaFeed f s3) of
                                   Inl e \<Rightarrow> Inl e
                                 | Inr s4 \<Rightarrow>
                                     (case getScreenshareFeed s4 opponentMemberId opponentDeviceId of
                                        None \<Rightarrow> Inr s4
                                      | Some f \<Rightarrow> removeScreenshareFeed f s4))))))"

section \<open>The call graph reconciler\<close>

text \<open>\<open>onIncomingCall\<close> (lines 692-731).\<close>

definition onIncomingCall :: "ref \<Rightarrow> group_call \<Rightarrow> error + group_call" where
  "onIncomingCall newCall s =
     (if call_roomId (callObj s newCall) \<noteq> roomId (room s) then Inr s
      else if call_state (callObj s newCall) \<noteq> Ringing then Inr s
      else if (case call_groupCallId (callObj s newCall) of
                 None \<Rightarrow> True
               | Some g \<Rightarrow> if g = [] then True else g \<noteq> groupCallId s)
      then Inr (eff (Call_reject newCall) s)
      else case getOpponentMember (callObj s newCall) of
             None \<Rightarrow> Inr s
           | Some opponent \<Rightarrow>
               (let deviceMap = (case map_of (calls s) (MObj opponent) of
                                   None \<Rightarrow> []
                                 | Some m \<Rightarrow> m);
                    prevCall = map_of deviceMap (getOpponentDeviceId (callObj s newCall))
                in if (case prevCall of
                         None \<Rightarrow> False
                       | Some p \<Rightarrow> callId (callObj s p) = callId (callObj s newCall))
                   then Inr s
                   else
                     case (case prevCall of
                             None \<Rightarrow> Inr s
                           | Some p \<Rightarrow> disposeCall p (Some Replaced) s) of
                       Inl e \<Rightarrow> Inl e
                     | Inr s1 \<Rightarrow>
                         (case initCall newCall s1 of
                            Inl e \<Rightarrow> Inl e
                          | Inr s2 \<Rightarrow>
                              (let s3 = eff (Call_answerWithCallFeeds newCall (getLocalFeeds s2)) s2;
                                   s4 = s3\<lparr>calls :=
                                          AList.update (MObj opponent)
                                            (AList.update (getOpponentDeviceId (callObj s3 newCall))
                                               newCall deviceMap)
                                            (calls s3)\<rparr>
                               in Inr (eff Emit_CallsChanged s4)))))"

text \<open>
  The loop of \<open>placeOutgoingCalls\<close> over the devices of one member (lines 760-823).
  \<open>create\<close> stands for \<open>createNewMatrixCall\<close> of call.ts: given the invitee, the opponent
  device id and the opponent session id it yields a new call object of the store, or none.
  Reading \<open>member.userId\<close> of a \<open>null\<close> member throws. What the promise of
  \<open>placeCallWithCallFeeds\<close> does later is not part of the pass.
\<close>

fun placeDevices ::
  "(jsstring \<Rightarrow> jsstring \<Rightarrow> jsstring \<Rightarrow> ref option) \<Rightarrow> member_key
     \<Rightarrow> (jsstring \<times> ParticipantState) list
     \<Rightarrow> (jsstring \<times> ref) list \<times> bool \<times> group_call
     \<Rightarrow> error + ((jsstring \<times> ref) list \<times> bool \<times> group_call)" where
  "placeDevices create member [] acc = Inr acc"
| "placeDevices create member ((deviceId, participant) # rest) (callMap, callsChanged, s) =
     (let prevCall = map_of callMap deviceId
      in if (case prevCall of
               None \<Rightarrow> True
             | Some p \<Rightarrow> getOpponentSessionId (callObj s p) \<noteq> Some (sessionId participant))
         then (case member of
                 MObj m \<Rightarrow>
                   if wantsOutgoingCall (client s) (userId m) deviceId
                   then (case (case prevCall of
                                 None \<Rightarrow> Inr s
                               | Some p \<Rightarrow> disposeCall p (Some NewSession) s) of
                           Inl e \<Rightarrow> Inl e
                         | Inr s1 \<Rightarrow>
                             (case create (userId m) deviceId (sessionId participant) of
                                None \<Rightarrow>
                                  placeDevices create member rest
                                    (AList.delete deviceId callMap, True, s1)
                              | Some newCall \<Rightarrow>
                                  (case initCall newCall s1 of
                                     Inl e \<Rightarrow> Inl e
                                   | Inr s2 \<Rightarrow>
                                       placeDevices create member rest
                                         (AList.update deviceId newCall callMap, True,
                                          eff (Call_placeCallWithCallFeeds newCall (getLocalFeeds s2)
                                                 (screensharing participant)) s2))))
                   else placeDevices create member rest (callMap, callsChanged, s)
               | _ \<Rightarrow> Inl TypeError)
         else placeDevices create member rest (callMap, callsChanged, s))"

text \<open>The loop of \<open>placeOutgoingCalls\<close> over the members of the participant view (lines 757-830).\<close>

fun placeMembers ::
  "(jsstring \<Rightarrow> jsstring \<Rightarrow> jsstring \<Rightarrow> ref option) \<Rightarrow> participant_view
     \<Rightarrow> bool \<times> group_call \<Rightarrow> error + (bool \<times> group_call)" where
  "placeMembers create [] acc = Inr acc"
| "placeMembers create ((member, participantMap) # rest) (callsChanged, s) =
     (let callMap = (case map_of (calls s) member of None \<Rightarrow> [] | Some m \<Rightarrow> m)
      in case placeDevices create member participantMap (callMap, callsChanged, s) of
           Inl e \<Rightarrow> Inl e
         | Inr (callMap', callsChanged', s1) \<Rightarrow>
             placeMembers create rest
               (callsChanged',
                s1\<lparr>calls := (if callMap' \<noteq> []
                              then AList.update member callMap' (calls s1)
                              else AList.delete member (calls s1))\<rparr>))"

text \<open>\<open>placeOutgoingCalls\<close> (lines 754-833).\<close>

definition placeOutgoingCalls ::
  "(jsstring \<Rightarrow> jsstring \<Rightarrow> jsstring \<Rightarrow> ref option) \<Rightarrow> group_call \<Rightarrow> error + group_call" where
  "placeOutgoingCalls create s =
     (case placeMembers create (participants s) (False, s) of
        Inl e \<Rightarrow> Inl e
      | Inr (callsChanged, s1) \<Rightarrow> Inr (if callsChanged then eff Emit_CallsChanged s1 else s1))"

text \<open>\<open>onCallHangup\<close> (lines 1025-1038).\<close>

definition onCallHangup :: "ref \<Rightarrow> group_call \<Rightarrow> error + group_call" where
  "onCallHangup c s =
     (if hangupReason (callObj s c) = Some Replaced then Inr s
      else
        let opponent = (case getOpponentMember (callObj s c) of
                          Some m \<Rightarrow> MObj m
                        | None \<Rightarrow> (case invitee (callObj s c) of
                                     None \<Rightarrow> MNull
                                   | Some i \<Rightarrow> ofGetMember (getMember (room s) i)))
        in case map_of (calls s) opponent of
             None \<Rightarrow> Inr s
           | Some deviceMap \<Rightarrow>
               if map_of deviceMap (getOpponentDeviceId (callObj s c)) = Some c
               then (case disposeCall c (hangupReason (callObj s c)) s of
                       Inl e \<Rightarrow> Inl e
                     | Inr s1 \<Rightarrow>
                         (let deviceMap' = AList.delete (getOpponentDeviceId (callObj s1 c)) deviceMap;
                              s2 = s1\<lparr>calls := (if deviceMap' = []
                                                then AList.delete opponent (calls s1)
                                                else AList.update opponent deviceMap' (calls s1))\<rparr>
                          in Inr (eff Emit_CallsChanged s2)))
               else Inr s)"

text \<open>\<open>onCallReplaced\<close> (lines 1040-1053).\<close>

definition onCallReplaced :: "ref \<Rightarrow> ref \<Rightarrow> group_call \<Rightarrow> error + group_call" where
  "onCallReplaced prevCall newCall s =
     (let opponent = ofOpponentMember (getOpponentMember (callObj s prevCall));
          deviceMap = (case map_of (calls s) opponent of None \<Rightarrow> [] | Some m \<Rightarrow> m);
          s0 = s\<lparr>calls := AList.update opponent deviceMap (calls s)\<rparr>
      in case disposeCall prevCall (Some Replaced) s0 of
           Inl e \<Rightarrow> Inl e
         | Inr s1 \<Rightarrow>
             (case initCall newCall s1 of
                Inl e \<Rightarrow> Inl e
              | Inr s2 \<Rightarrow>
                  Inr (eff Emit_CallsChanged
                        (s2\<lparr>calls :=
                            AList.update opponent
                              (AList.update (getOpponentDeviceId (callObj s2 prevCall)) newCall deviceMap)
                              (calls s2)\<rparr>))))"

section \<open>Retries\<close>

text \<open>\<open>retriesMap?.get(deviceId) ?? 0\<close> for the retry map of a member.\<close>

definition retryCount :: "(member_key \<times> (jsstring \<times> nat) list) list \<Rightarrow> member_key \<Rightarrow> jsstring \<Rightarrow> nat" where
  "retryCount counts member deviceId =
     (case map_of counts member of
        None \<Rightarrow> 0
      | Some retriesMap \<Rightarrow> (case map_of retriesMap deviceId of None \<Rightarrow> 0 | Some n \<Rightarrow> n))"

text \<open>
  Lines 863-867: the retry map of the member, made and stored when there is none, gets the
  new count for the device.
\<close>

definition setRetryCount ::
  "(member_key \<times> (jsstring \<times> nat) list) list \<Rightarrow> member_key \<Rightarrow> jsstring \<Rightarrow> nat
     \<Rightarrow> (member_key \<times> (jsstring \<times> nat) list) list" where
  "setRetryCount counts member deviceId n =
     AList.update member
       (AList.update deviceId n (case map_of counts member of None \<Rightarrow> [] | Some m \<Rightarrow> m))
       counts"

text \<open>\<open>callMap?.get(deviceId)\<close> for \<open>callMap = this.calls.get(member)\<close> (lines 851 and 855).\<close>

definition slotCall :: "group_call \<Rightarrow> member_key \<Rightarrow> jsstring \<Rightarrow> ref option" where
  "slotCall s member deviceId =
     (case map_of (calls s) member of
        None \<Rightarrow> None
      | Some callMap \<Rightarrow> map_of callMap deviceId)"

text \<open>
  \<open>call?.getOpponentSessionId() !== participant.sessionId\<close>: there is no call, or its
  opponent session is not the advertised one.
\<close>

definition sessionDiffers :: "group_call \<Rightarrow> ref option \<Rightarrow> ParticipantState \<Rightarrow> bool" where
  "sessionDiffers s c participant =
     (case c of
        None \<Rightarrow> True
      | Some p \<Rightarrow> getOpponentSessionId (callObj s p) \<noteq> Some (sessionId participant))"

text \<open>The loop of \<open>onRetryCallLoop\<close> over the devices of one member (lines 854-870).\<close>

fun retryDevices ::
  "group_call \<Rightarrow> member_key \<Rightarrow> (jsstring \<times> ParticipantState) list
     \<Rightarrow> (member_key \<times> (jsstring \<times> nat) list) list \<times> bool
     \<Rightarrow> error + ((member_key \<times> (jsstring \<times> nat) list) list \<times> bool)" where
  "retryDevices s member [] acc = Inr acc"
| "retryDevices s member ((deviceId, participant) # rest) (counts, needsRetry) =
     (let c = slotCall s member deviceId;
          retries = retryCount counts member deviceId
      in if sessionDiffers s c participant
         then (case member of
                 MObj m \<Rightarrow>
                   if wantsOutgoingCall (client s) (userId m) deviceId \<and> retries < 3
                   then retryDevices s member rest
                          (setRetryCount counts member deviceId (retries + 1), True)
                   else retryDevices s member rest (counts, needsRetry)
               | _ \<Rightarrow> Inl TypeError)
         else retryDevices s member rest (counts, needsRetry))"

fun retryMembers ::
  "group_call \<Rightarrow> participant_view
     \<Rightarrow> (member_key \<times> (jsstring \<times> nat) list) list \<times> bool
     \<Rightarrow> error + ((member_key \<times> (jsstring \<times> nat) list) list \<times> bool)" where
  "retryMembers s [] acc = Inr acc"
| "retryMembers s ((member, participantMap) # rest) acc =
     (case retryDevices s member participantMap acc of
        Inl e \<Rightarrow> Inl e
      | Inr acc' \<Rightarrow> retryMembers s rest acc')"

text \<open>\<open>onRetryCallLoop\<close> (lines 847-874).\<close>

definition onRetryCallLoop ::
  "(jsstring \<Rightarrow> jsstring \<Rightarrow> jsstring \<Rightarrow> ref option) \<Rightarrow> group_call \<Rightarrow> error + group_call" where
  "onRetryCallLoop create s =
     (case retryMembers s (participants s) (retryCallCounts s, False) of
        Inl e \<Rightarrow> Inl e
      | Inr (counts, needsRetry) \<Rightarrow>
          if needsRetry then placeOutgoingCalls create (s\<lparr>retryCallCounts := counts\<rparr>)
          else Inr (s\<lparr>retryCallCounts := counts\<rparr>))"

text \<open>
  \<open>onCallStateChanged\<close> (lines 998-1023); \<open>this.localCallFeed!.isAudioMuted()\<close> throws when
  there is no local feed.
\<close>

definition onCallStateChanged :: "ref \<Rightarrow> CallState \<Rightarrow> group_call \<Rightarrow> error + group_call" where
  "onCallStateChanged c newState s =
     (case localCallFeed s of
        None \<Rightarrow> Inl TypeError
      | Some f \<Rightarrow>
          (let audioMuted = isAudioMuted (feedObj s f);
               s1 = (if localUsermediaStream (callObj s c)
                        \<and> call_isMicrophoneMuted (callObj s c) \<noteq> audioMuted
                     then eff (Call_setMicrophoneMuted c audioMuted) s else s);
               videoMuted = isVideoMuted (feedObj s1 f);
               s2 = (if localUsermediaStream (callObj s1 c)
                        \<and> call_isLocalVideoMuted (callObj s1 c) \<noteq> videoMuted
                     then eff (Call_setLocalVideoMuted c videoMuted) s1 else s1)
           in if newState = Connected
              then (let opponent = ofOpponentMember (getOpponentMember (callObj s2 c))
                    in case map_of (retryCallCounts s2) opponent of
                         None \<Rightarrow> Inr s2
                       | Some retriesMap \<Rightarrow>
                           (let retriesMap' = AList.delete (getOpponentDeviceId (callObj s2 c)) retriesMap
                            in Inr (s2\<lparr>retryCallCounts :=
                                        (if retriesMap' = []
                                         then AList.delete opponent (retryCallCounts s2)
                                         else AList.update opponent retriesMap' (retryCallCounts s2))\<rparr>)))
              else Inr s2))"

section \<open>Concrete scenarios\<close>

text \<open>
  A room with three joined members; the local device is \<open>DA\<close> of \<open>@a:h\<close>, in session
  \<open>s1\<close>, and the group call is \<open>G\<close>.
\<close>

definition ex_alice :: room_member where
  "ex_alice = \<lparr>userId = str ''@a:h'', membership = Some (str ''join'')\<rparr>"

definition ex_bob :: room_member where
  "ex_bob = \<lparr>userId = str ''@b:h'', membership = Some (str ''join'')\<rparr>"

definition ex_carol :: room_member where
  "ex_carol = \<lparr>userId = str ''@c:h'', membership = Some (str ''join'')\<rparr>"

text \<open>A device advertisement with one user-media feed, and a member-state content.\<close>

definition ex_device :: "string \<Rightarrow> string \<Rightarrow> int \<Rightarrow> json" where
  "ex_device did sid ts =
     JObject [(''device_id'', JString (str did)), (''session_id'', JString (str sid)),
              (''expires_ts'', JNumber (Num (of_int ts))),
              (''feeds'', JArray [JObject [(''purpose'', JString (str ''m.usermedia''))]])]"

definition ex_content :: "string \<Rightarrow> json list \<Rightarrow> json" where
  "ex_content gid devs =
     JObject [(''m.calls'', JArray [JObject [(''m.call_id'', JString (str gid)),
                                             (''m.devices'', JArray devs)]])]"

definition ex_feed :: "string \<Rightarrow> string \<Rightarrow> bool \<Rightarrow> jsnum list \<Rightarrow> call_feed" where
  "ex_feed uid did loc samples =
     \<lparr>feed_userId = str uid, feed_deviceId = str did, purpose = Usermedia, isLocal = loc,
      speakingVolumeSamples = samples, isAudioMuted = False, isVideoMuted = False\<rparr>"

text \<open>A ringing call of this group call from device \<open>DB\<close> of \<open>@b:h\<close>, with no feeds yet.\<close>

definition ex_call :: matrix_call where
  "ex_call =
     \<lparr>callId = str ''c1'', call_roomId = str ''!r:h'', call_state = Ringing,
      call_groupCallId = Some (str ''G''), getOpponentMember = Some ex_bob,
      getOpponentDeviceId = str ''DB'', getOpponentSessionId = Some (str ''s2''),
      invitee = None, hangupReason = None, remoteUsermediaFeed = None,
      remoteScreensharingFeed = None, localUsermediaFeed = None, localScreensharingFeed = None,
      localUsermediaStream = False, call_isMicrophoneMuted = False,
      call_isLocalVideoMuted = False\<rparr>"

text \<open>A new outbound call to a device, as \<open>createNewMatrixCall\<close> makes it.\<close>

definition ex_outbound :: "string \<Rightarrow> string \<Rightarrow> string \<Rightarrow> string \<Rightarrow> matrix_call" where
  "ex_outbound cid uid did sid =
     ex_call\<lparr>callId := str cid, call_state := OtherCallState, getOpponentMember := None,
             getOpponentDeviceId := str did, getOpponentSessionId := Some (str sid),
             invitee := Some (str uid)\<rparr>"

definition ex_room :: "member_state_event list \<Rightarrow> matrix_room" where
  "ex_room evs =
     \<lparr>roomId = str ''!r:h'',
      getMember = (\<lambda>u. if u = str ''@a:h'' then Some ex_alice
                        else if u = str ''@b:h'' then Some ex_bob
                        else if u = str ''@c:h'' then Some ex_carol else None),
      memberStateEvents = evs\<rparr>"

definition ex_group_call :: "GroupCallState \<Rightarrow> member_state_event list \<Rightarrow> group_call" where
  "ex_group_call st evs =
     \<lparr>client = \<lparr>getUserId = str ''@a:h'', getDeviceId = str ''DA'', getSessionId = str ''s1''\<rparr>,
      room = ex_room evs, groupCallId = str ''G'', isPtt = False, state = st,
      enteredViaAnotherSession = False, participants = [], calls = [], callHandlers = [],
      retryCallCounts = [], userMediaFeeds = [], screenshareFeeds = [], activeSpeaker = None,
      localCallFeed = None, localScreenshareFeed = None, initWithAudioMuted = False,
      initWithVideoMuted = False, transmitTimer = False,
      feedObj = (\<lambda>r. ex_feed ''@a:h'' ''DA'' True []),
      callObj = (\<lambda>r. ex_call), effects = []\<rparr>"

text \<open>
  The member-state event of \<open>@a:h\<close>: this call's entry with the given devices, before an
  entry of another call \<open>H\<close>.
\<close>

definition ex_own_event :: "json list \<Rightarrow> member_state_event" where
  "ex_own_event devs =
     \<lparr>getStateKey = str ''@a:h'',
      getContent = JObject [(''m.calls'', JArray
        [JObject [(''m.call_id'', JString (str ''G'')), (''m.devices'', JArray devs)],
         JObject [(''m.call_id'', JString (str ''H'')),
                  (''m.devices'', JArray [ex_device ''DA'' ''s1'' 7000])]])]\<rparr>"

text \<open>
  Two remote user-media feeds, of eight volume samples each: object 1 of \<open>@b:h\<close> with
  one sample of \<open>-100\<close> and then seven of \<open>-50\<close>, and object 2 of \<open>@c:h\<close> with eight
  samples of \<open>-52\<close>.
\<close>

definition ex_speakers :: group_call where
  "ex_speakers =
     (ex_group_call Entered [])
       \<lparr>userMediaFeeds := [1, 2],
        feedObj := (\<lambda>r. if r = 1
                        then ex_feed ''@b:h'' ''DB'' False (Num (- 100) # replicate 7 (Num (- 50)))
                        else ex_feed ''@c:h'' ''DC'' False (replicate 8 (Num (- 52))))\<rparr>"

text \<open>Entered, with the local feed (object 0) registered and no call yet.\<close>

definition ex_entered :: group_call where
  "ex_entered = (ex_group_call Entered [])\<lparr>userMediaFeeds := [0], localCallFeed := Some 0\<rparr>"

text \<open>
  \<open>ex_entered\<close> with device \<open>DB\<close> of \<open>@b:h\<close> in the participant view, and the same after
  the placement pass, for which \<open>createNewMatrixCall\<close> yields object 1: the new outbound call
  is in the graph, and has no local feeds until its \<open>placeCallWithCallFeeds\<close> has got that
  far.
\<close>

definition ex_joining :: group_call where
  "ex_joining =
     ex_entered
       \<lparr>participants := [(MObj ex_bob, [(str ''DB'', \<lparr>sessionId = str ''s2'', screensharing = False\<rparr>)])],
        callObj := (\<lambda>r. ex_outbound ''c1'' ''@b:h'' ''DB'' ''s2'')\<rparr>"

definition ex_placed :: group_call where
  "ex_placed =
     ex_joining
       \<lparr>calls := [(MObj ex_bob, [(str ''DB'', 1)])],
        callHandlers := [(str ''@b:h'', [(str ''DB'', \<lparr>handlersOf = 1\<rparr>)])],
        effects := [Call_on 1 FeedsChanged, Call_on 1 CallEvent_State, Call_on 1 Hangup,
                    Call_on 1 CallEvent_Replaced, Call_set_isPtt 1 False, ReEmitter_reEmit 1,
                    Call_placeCallWithCallFeeds 1 [0] False, Emit_CallsChanged]\<rparr>"

text \<open>
  \<open>ex_entered\<close> after the ringing call (object 1) from device \<open>DB\<close> of \<open>@b:h\<close> has been
  admitted, and the same once that call has ended by a hangup of the user.
\<close>

definition ex_answered :: group_call where
  "ex_answered =
     ex_entered
       \<lparr>calls := [(MObj ex_bob, [(str ''DB'', 1)])],
        callHandlers := [(str ''@b:h'', [(str ''DB'', \<lparr>handlersOf = 1\<rparr>)])],
        effects := [Call_on 1 FeedsChanged, Call_on 1 CallEvent_State, Call_on 1 Hangup,
                    Call_on 1 CallEvent_Replaced, Call_set_isPtt 1 False, ReEmitter_reEmit 1,
                    Call_answerWithCallFeeds 1 [0], Emit_CallsChanged]\<rparr>"

definition ex_hung_up :: group_call where
  "ex_hung_up =
     ex_answered
       \<lparr>callObj := (\<lambda>r. ex_call\<lparr>call_state := CallState_Ended, hangupReason := Some UserHangup\<rparr>)\<rparr>"

text \<open>
  Entered, with \<open>@b:h\<close> (device \<open>DB\<close>) and \<open>@c:h\<close> (device \<open>DC\<close>) in the participant
  view, no call in the graph, and three retries counted for the slot of \<open>DB\<close>.
  \<open>createNewMatrixCall\<close> yields object 1 for \<open>@b:h\<close> and object 2 for \<open>@c:h\<close>.
\<close>

definition ex_capped :: group_call where
  "ex_capped =
     ex_entered
       \<lparr>participants :=
          [(MObj ex_bob, [(str ''DB'', \<lparr>sessionId = str ''s2'', screensharing = False\<rparr>)]),
           (MObj ex_carol, [(str ''DC'', \<lparr>sessionId = str ''s3'', screensharing = False\<rparr>)])],
        retryCallCounts := [(MObj ex_bob, [(str ''DB'', 3)])],
        callObj := (\<lambda>r. if r = 1 then ex_outbound ''c1'' ''@b:h'' ''DB'' ''s2''
                        else ex_outbound ''c2'' ''@c:h'' ''DC'' ''s3'')\<rparr>"

definition ex_create :: "jsstring \<Rightarrow> jsstring \<Rightarrow> jsstring \<Rightarrow> ref option" where
  "ex_create uid did sid = (if uid = str ''@b:h'' then Some 1 else Some 2)"

text \<open>\<open>ex_capped\<close> after a retry tick.\<close>

definition ex_retried :: group_call where
  "ex_retried =
     ex_capped
       \<lparr>calls := [(MObj ex_bob, [(str ''DB'', 1)]), (MObj ex_carol, [(str ''DC'', 2)])],
        callHandlers := [(str ''@b:h'', [(str ''DB'', \<lparr>handlersOf = 1\<rparr>)]),
                         (str ''@c:h'', [(str ''DC'', \<lparr>handlersOf = 2\<rparr>)])],
        retryCallCounts := [(MObj ex_bob, [(str ''DB'', 3)]), (MObj ex_carol, [(str ''DC'', 1)])],
        effects := [Call_on 1 FeedsChanged, Call_on 1 CallEvent_State, Call_on 1 Hangup,
                    Call_on 1 CallEvent_Replaced, Call_set_isPtt 1 False, ReEmitter_reEmit 1,
                    Call_placeCallWithCallFeeds 1 [0] False,
                    Call_on 2 FeedsChanged, Call_on 2 CallEvent_State, Call_on 2 Hangup,
                    Call_on 2 CallEvent_Replaced, Call_set_isPtt 2 False, ReEmitter_reEmit 2,
                    Call_placeCallWithCallFeeds 2 [0] False,
                    Emit_CallsChanged]\<rparr>"

text \<open>
  \<open>ex_retried\<close> once device \<open>DC\<close> of \<open>@c:h\<close> has answered the call (object 2), and then
  once that call has reached \<open>Connected\<close>.
\<close>

definition ex_accepted :: group_call where
  "ex_accepted =
     ex_retried
       \<lparr>callObj := (\<lambda>r. if r = 1 then ex_outbound ''c1'' ''@b:h'' ''DB'' ''s2''
                        else (ex_outbound ''c2'' ''@c:h'' ''DC'' ''s3'')
                               \<lparr>getOpponentMember := Some ex_carol\<rparr>)\<rparr>"

definition ex_connected :: group_call where
  "ex_connected = ex_accepted\<lparr>retryCallCounts := [(MObj ex_bob, [(str ''DB'', 3)])]\<rparr>"
section \<open>Evaluation of the scenarios\<close>

lemmas ex_defs = ex_alice_def ex_bob_def ex_carol_def ex_device_def ex_content_def ex_feed_def
  ex_call_def ex_outbound_def ex_room_def ex_group_call_def ex_own_event_def ex_placed_def ex_speakers_def
  ex_entered_def ex_answered_def ex_hung_up_def ex_capped_def ex_create_def ex_retried_def ex_joining_def
  ex_accepted_def ex_connected_def

lemmas json_defs = getProp_def nullish_def js_gt_def eventDevices_def validDevice_def
  dropLocalDevice_def localEcho_def getLocalFeeds_def str_def

section \<open>The participant view: properties\<close>

lemma filterE_Inr: "filterE p xs = Inr ys \<Longrightarrow> ys = filter (\<lambda>x. p x = Inr True) xs"
  by (induction xs arbitrary: ys) (auto split: sum.splits if_splits)

lemma validDevice_True:
  "validDevice now d = Inr True \<longleftrightarrow>
     \<not> nullish d \<and> isString (get d ''device_id'') \<and> isString (get d ''session_id'')
     \<and> (\<exists>ts. get d ''expires_ts'' = JNumber ts \<and> js_gt ts (Num (of_int now)))
     \<and> isArray (get d ''feeds'')"
  by (auto simp: validDevice_def getProp_def split: json.splits)

lemma isString_conv: "isString v \<longleftrightarrow> v = JString (asString v)"
  by (cases v) auto

lemma addDevices_lookup:
  "addDevices ds (dm, ne) = Inr (dm', ne') \<Longrightarrow> map_of dm' did = Some p \<Longrightarrow>
     map_of dm did = Some p
     \<or> (\<exists>d\<in>set ds. asString (get d ''device_id'') = did
            \<and> sessionId p = asString (get d ''session_id''))"
proof (induction ds arbitrary: dm ne)
  case Nil
  then show ?case by simp
next
  case (Cons d ds)
  then show ?case
    by (fastforce simp: update_conv' split: sum.splits if_splits)
qed

lemma addDevices_keys:
  "addDevices ds (dm, ne) = Inr (dm', ne') \<Longrightarrow>
     dom (map_of dm') = dom (map_of dm) \<union> (\<lambda>d. asString (get d ''device_id'')) ` set ds"
proof (induction ds arbitrary: dm ne)
  case Nil
  then show ?case by simp
next
  case (Cons d ds)
  then show ?case
    by (auto simp: update_conv' split: sum.splits if_splits)
qed

lemma participantsOfEvents_lookup:
  "participantsOfEvents s now entered es (view, ne) = Inr (view', ne') \<Longrightarrow>
   map_of view' m = Some dm \<Longrightarrow>
     map_of view m = Some dm
     \<or> (\<exists>e\<in>set es. \<exists>member devices ne0 ne1.
            getMember (room s) (getStateKey e) = Some member \<and> m = MObj member
          \<and> membership member = Some (str ''join'')
          \<and> eventDevices (groupCallId s) (getContent e) = Inr devices
          \<and> addDevices (dropLocalDevice s entered (Some member)
                 (filter (\<lambda>d. validDevice now d = Inr True) devices)) ([], ne0) = Inr (dm, ne1))"
proof (induction es arbitrary: view ne)
  case Nil
  then show ?case by simp
next
  case (Cons e es)
  show ?case
  proof (cases "getMember (room s) (getStateKey e)")
    case None
    with Cons.prems Cons.IH[of view ne] show ?thesis
      by (auto simp: Let_def split: sum.splits)
  next
    case (Some member)
    from Cons.prems obtain devices where dev: "eventDevices (groupCallId s) (getContent e) = Inr devices"
      by (auto simp: Let_def split: sum.splits)
    from Cons.prems dev obtain valid where val: "filterE (validDevice now) devices = Inr valid"
      by (auto simp: Let_def split: sum.splits)
    have valid: "valid = filter (\<lambda>d. validDevice now d = Inr True) devices"
      using filterE_Inr[OF val] .
    let ?vd = "dropLocalDevice s entered (Some member) valid"
    show ?thesis
    proof (cases "?vd \<noteq> [] \<and> membership member = Some (str ''join'')")
      case False
      with Cons.prems Some dev val Cons.IH[of view ne] show ?thesis
        by (auto simp: Let_def)
    next
      case True
      with Cons.prems Some dev val obtain dm0 ne0 where
        add: "addDevices ?vd ([], ne) = Inr (dm0, ne0)" and
        rest: "participantsOfEvents s now entered es (AList.update (MObj member) dm0 view, ne0) = Inr (view', ne')"
        by (auto simp: Let_def split: sum.splits)
      from Cons.IH[OF rest Cons.prems(2)] show ?thesis
      proof
        assume "map_of (AList.update (MObj member) dm0 view) m = Some dm"
        then have "map_of view m = Some dm \<or> (m = MObj member \<and> dm = dm0)"
          by (auto simp: update_conv' split: if_splits)
        with Some dev add True valid show ?thesis by fastforce
      next
        assume "\<exists>e\<in>set es. \<exists>member devices ne0 ne1.
            getMember (room s) (getStateKey e) = Some member \<and> m = MObj member
          \<and> membership member = Some (str ''join'')
          \<and> eventDevices (groupCallId s) (getContent e) = Inr devices
          \<and> addDevices (dropLocalDevice s entered (Some member)
                 (filter (\<lambda>d. validDevice now d = Inr True) devices)) ([], ne0) = Inr (dm, ne1)"
        then show ?thesis by auto
      qed
    qed
  qed
qed

lemma participantsOfEvents_keys:
  "participantsOfEvents s now entered es (view, ne) = Inr (view', ne') \<Longrightarrow>
   map_of view' m \<noteq> None \<longleftrightarrow>
     map_of view m \<noteq> None
     \<or> (\<exists>e\<in>set es. \<exists>member devices.
            getMember (room s) (getStateKey e) = Some member \<and> m = MObj member
          \<and> membership member = Some (str ''join'')
          \<and> eventDevices (groupCallId s) (getContent e) = Inr devices
          \<and> dropLocalDevice s entered (Some member)
                 (filter (\<lambda>d. validDevice now d = Inr True) devices) \<noteq> [])"
proof (induction es arbitrary: view ne)
  case Nil
  then show ?case by simp
next
  case (Cons e es)
  show ?case
  proof (cases "getMember (room s) (getStateKey e)")
    case None
    with Cons.prems Cons.IH[of view ne] show ?thesis
      by (auto simp: Let_def split: sum.splits)
  next
    case (Some member)
    from Cons.prems obtain devices where dev: "eventDevices (groupCallId s) (getContent e) = Inr devices"
      by (auto simp: Let_def split: sum.splits)
    from Cons.prems dev obtain valid where val: "filterE (validDevice now) devices = Inr valid"
      by (auto simp: Let_def split: sum.splits)
    have valid: "valid = filter (\<lambda>d. validDevice now d = Inr True) devices"
      using filterE_Inr[OF val] .
    let ?vd = "dropLocalDevice s entered (Some member) valid"
    show ?thesis
    proof (cases "?vd \<noteq> [] \<and> membership member = Some (str ''join'')")
      case False
      with Cons.prems Some dev val have
        "participantsOfEvents s now entered es (view, ne) = Inr (view', ne')"
        by (auto simp: Let_def)
      from Cons.IH[OF this] False Some dev valid show ?thesis
        by auto
    next
      case True
      with Cons.prems Some dev val obtain dm0 ne0 where
        add: "addDevices ?vd ([], ne) = Inr (dm0, ne0)" and
        rest: "participantsOfEvents s now entered es (AList.update (MObj member) dm0 view, ne0) = Inr (view', ne')"
        by (auto simp: Let_def split: sum.splits)
      have "map_of (AList.update (MObj member) dm0 view) m \<noteq> None
              \<longleftrightarrow> map_of view m \<noteq> None \<or> m = MObj member"
        by (auto simp: update_conv')
      with Cons.IH[OF rest] True Some dev valid show ?thesis
        by auto
    qed
  qed
qed

lemma localEcho_lookup:
  "map_of (localEcho s view) m =
     (if m = ofGetMember (getMember (room s) (getUserId (client s)))
      then (case map_of view m of
              None \<Rightarrow> Some [(getDeviceId (client s),
                 \<lparr>sessionId = getSessionId (client s),
                  screensharing = list_ex (\<lambda>f. purpose (feedObj s f) = Screenshare) (getLocalFeeds s)\<rparr>)]
            | Some dm \<Rightarrow>
                if map_of dm (getDeviceId (client s)) = None
                then Some (AList.update (getDeviceId (client s))
                  \<lparr>sessionId = getSessionId (client s),
                   screensharing = list_ex (\<lambda>f. purpose (feedObj s f) = Screenshare) (getLocalFeeds s)\<rparr> dm)
                else Some dm)
      else map_of view m)"
  by (auto simp: localEcho_def Let_def update_conv' split: option.splits)

lemma updateParticipants_cases:
  assumes "updateParticipants s now = Inr (view, ne)" and "state s \<noteq> Ended"
  obtains view0 where
    "participantsOfEvents s now (state s = Entered \<or> enteredViaAnotherSession s)
       (memberStateEvents (room s)) ([], PosInf) = Inr (view0, ne)"
    "view = (if state s = Entered \<or> enteredViaAnotherSession s then localEcho s view0 else view0)"
  using assms by (auto simp: updateParticipants_def Let_def split: sum.splits if_splits)

lemma device_of_entry:
  assumes add: "addDevices (dropLocalDevice s entered (Some member)
                 (filter (\<lambda>d. validDevice now d = Inr True) devices)) ([], ne0) = Inr (dm, ne1)"
    and p: "map_of dm did = Some p"
  shows "\<exists>d\<in>set devices. \<exists>ts. get d ''device_id'' = JString did
           \<and> get d ''session_id'' = JString (sessionId p)
           \<and> get d ''expires_ts'' = JNumber ts \<and> js_gt ts (Num (of_int now))
           \<and> isArray (get d ''feeds'')
           \<and> \<not> (\<not> entered \<and> userId member = getUserId (client s) \<and> did = getDeviceId (client s))"
proof -
  from addDevices_lookup[OF add p] obtain d where
    d: "d \<in> set (dropLocalDevice s entered (Some member)
                 (filter (\<lambda>d. validDevice now d = Inr True) devices))"
    and did: "asString (get d ''device_id'') = did"
    and sid: "sessionId p = asString (get d ''session_id'')"
    by auto
  from d have v: "validDevice now d = Inr True" and din: "d \<in> set devices"
    by (auto simp: dropLocalDevice_def split: if_splits)
  from d have loc: "\<not> (\<not> entered \<and> userId member = getUserId (client s)
                    \<and> get d ''device_id'' = JString (getDeviceId (client s)))"
    by (auto simp: dropLocalDevice_def split: if_splits)
  from v did sid loc din show ?thesis
    unfolding validDevice_True isString_conv[of "get d ''device_id''"] isString_conv[of "get d ''session_id''"]
    by (intro bexI[of _ d]) auto
qed

lemma dropLocalDevice_nonempty:
  "dropLocalDevice s entered (Some member) (filter (\<lambda>d. validDevice now d = Inr True) devices) \<noteq> []
   \<longleftrightarrow> (\<exists>d\<in>set devices. validDevice now d = Inr True
          \<and> \<not> (\<not> entered \<and> userId member = getUserId (client s)
                \<and> get d ''device_id'' = JString (getDeviceId (client s))))"
  by (auto simp: dropLocalDevice_def filter_empty_conv)

lemma isString_not_nullish: "isString (get d k) \<Longrightarrow> \<not> nullish d"
  by (cases d) (auto simp: nullish_def)

lemma dropLocalDevice_nonempty_fields:
  "dropLocalDevice s entered (Some member) (filter (\<lambda>d. validDevice now d = Inr True) devices) \<noteq> []
   \<longleftrightarrow> (\<exists>d\<in>set devices.
          isString (get d ''device_id'') \<and> isString (get d ''session_id'')
        \<and> (\<exists>ts. get d ''expires_ts'' = JNumber ts \<and> js_gt ts (Num (of_int now)))
        \<and> isArray (get d ''feeds'')
        \<and> \<not> (\<not> entered \<and> userId member = getUserId (client s)
              \<and> get d ''device_id'' = JString (getDeviceId (client s))))"
  unfolding dropLocalDevice_nonempty
  by (auto simp: validDevice_True dest: isString_not_nullish)

text \<open>
  C3, as the code has it. When the group call has ended the view is empty. Otherwise every
  device entry of the view, other than the local echo (the entry of the local member and
  the local device id, when we count as entered), comes from a device record of that
  member's state event whose \<open>device_id\<close> and \<open>session_id\<close> are strings, whose
  \<open>expires_ts\<close> is a number greater than \<open>now\<close> and whose \<open>feeds\<close> is an array; and a
  member is an outer key iff it is the local member and we count as entered, or its
  membership is \<open>join\<close> and at least one such valid record remains after the local-echo
  filter. So an expired record never supplies an entry.
\<close>

theorem updateParticipants_entries:
  "updateParticipants s now = Inr (view, nextExpiration) \<Longrightarrow>
   (state s = Ended \<longrightarrow> view = [])
   \<and> (state s \<noteq> Ended \<longrightarrow>
        (\<forall>m deviceMap did p.
           map_of view m = Some deviceMap \<and> map_of deviceMap did = Some p \<longrightarrow>
             ((state s = Entered \<or> enteredViaAnotherSession s)
                \<and> m = ofGetMember (getMember (room s) (getUserId (client s)))
                \<and> did = getDeviceId (client s))
             \<or> (\<exists>e\<in>set (memberStateEvents (room s)). \<exists>member devices.
                   getMember (room s) (getStateKey e) = Some member \<and> m = MObj member
                 \<and> membership member = Some (str ''join'')
                 \<and> eventDevices (groupCallId s) (getContent e) = Inr devices
                 \<and> (\<exists>d\<in>set devices. \<exists>ts.
                        get d ''device_id'' = JString did
                      \<and> get d ''session_id'' = JString (sessionId p)
                      \<and> get d ''expires_ts'' = JNumber ts \<and> js_gt ts (Num (of_int now))
                      \<and> isArray (get d ''feeds''))))
        \<and> (\<forall>m. map_of view m \<noteq> None \<longleftrightarrow>
             ((state s = Entered \<or> enteredViaAnotherSession s)
                \<and> m = ofGetMember (getMember (room s) (getUserId (client s))))
             \<or> (\<exists>e\<in>set (memberStateEvents (room s)). \<exists>member devices.
                   getMember (room s) (getStateKey e) = Some member \<and> m = MObj member
                 \<and> membership member = Some (str ''join'')
                 \<and> eventDevices (groupCallId s) (getContent e) = Inr devices
                 \<and> (\<exists>d\<in>set devices.
                        isString (get d ''device_id'') \<and> isString (get d ''session_id'')
                      \<and> (\<exists>ts. get d ''expires_ts'' = JNumber ts \<and> js_gt ts (Num (of_int now)))
                      \<and> isArray (get d ''feeds'')
                      \<and> \<not> (\<not> (state s = Entered \<or> enteredViaAnotherSession s)
                            \<and> userId member = getUserId (client s)
                            \<and> get d ''device_id'' = JString (getDeviceId (client s)))))))"
proof (intro conjI impI)
  assume "updateParticipants s now = Inr (view, nextExpiration)" "state s = Ended"
  then show "view = []" by (simp add: updateParticipants_def)
next
  assume up: "updateParticipants s now = Inr (view, nextExpiration)" and ne: "state s \<noteq> Ended"
  let ?entered = "state s = Entered \<or> enteredViaAnotherSession s"
  let ?lm = "ofGetMember (getMember (room s) (getUserId (client s)))"
  from up ne obtain view0 where
    ev: "participantsOfEvents s now ?entered (memberStateEvents (room s)) ([], PosInf)
           = Inr (view0, nextExpiration)"
    and view: "view = (if ?entered then localEcho s view0 else view0)"
    by (rule updateParticipants_cases)
  show "\<forall>m deviceMap did p.
           map_of view m = Some deviceMap \<and> map_of deviceMap did = Some p \<longrightarrow>
             (?entered \<and> m = ?lm \<and> did = getDeviceId (client s))
             \<or> (\<exists>e\<in>set (memberStateEvents (room s)). \<exists>member devices.
                   getMember (room s) (getStateKey e) = Some member \<and> m = MObj member
                 \<and> membership member = Some (str ''join'')
                 \<and> eventDevices (groupCallId s) (getContent e) = Inr devices
                 \<and> (\<exists>d\<in>set devices. \<exists>ts.
                        get d ''device_id'' = JString did
                      \<and> get d ''session_id'' = JString (sessionId p)
                      \<and> get d ''expires_ts'' = JNumber ts \<and> js_gt ts (Num (of_int now))
                      \<and> isArray (get d ''feeds'')))"
  proof (intro allI impI, elim conjE)
    fix m deviceMap did p
    assume m: "map_of view m = Some deviceMap" and p: "map_of deviceMap did = Some p"
    let ?R = "\<exists>e\<in>set (memberStateEvents (room s)). \<exists>member devices.
                   getMember (room s) (getStateKey e) = Some member \<and> m = MObj member
                 \<and> membership member = Some (str ''join'')
                 \<and> eventDevices (groupCallId s) (getContent e) = Inr devices
                 \<and> (\<exists>d\<in>set devices. \<exists>ts.
                        get d ''device_id'' = JString did
                      \<and> get d ''session_id'' = JString (sessionId p)
                      \<and> get d ''expires_ts'' = JNumber ts \<and> js_gt ts (Num (of_int now))
                      \<and> isArray (get d ''feeds''))"
    have from_events: ?R if "map_of view0 m = Some dm" "map_of dm did = Some p" for dm
    proof -
      from participantsOfEvents_lookup[OF ev that(1)] obtain e member devices ne0 ne1 where
        e: "e \<in> set (memberStateEvents (room s))"
        and mem: "getMember (room s) (getStateKey e) = Some member" "m = MObj member"
           "membership member = Some (str ''join'')"
        and dev: "eventDevices (groupCallId s) (getContent e) = Inr devices"
        and add: "addDevices (dropLocalDevice s ?entered (Some member)
                 (filter (\<lambda>d. validDevice now d = Inr True) devices)) ([], ne0) = Inr (dm, ne1)"
        by auto
      from device_of_entry[OF add that(2)] e mem dev show ?thesis
        by blast
    qed
    show "(?entered \<and> m = ?lm \<and> did = getDeviceId (client s)) \<or> ?R"
    proof (cases "?entered \<and> m = ?lm")
      case False
      with m view have "map_of view0 m = Some deviceMap"
        by (auto simp: localEcho_lookup split: if_splits)
      from from_events[OF this p] show ?thesis ..
    next
      case True
      show ?thesis
      proof (cases "did = getDeviceId (client s)")
        case True
        with \<open>?entered \<and> m = ?lm\<close> show ?thesis by simp
      next
        case False
        from True m view have
          "\<exists>dm. map_of view0 m = Some dm \<and> map_of dm did = Some p"
          using p False
          by (auto simp: localEcho_lookup update_conv' split: if_splits option.splits)
        with from_events show ?thesis by blast
      qed
    qed
  qed
  show "\<forall>m. map_of view m \<noteq> None \<longleftrightarrow>
             (?entered \<and> m = ?lm)
             \<or> (\<exists>e\<in>set (memberStateEvents (room s)). \<exists>member devices.
                   getMember (room s) (getStateKey e) = Some member \<and> m = MObj member
                 \<and> membership member = Some (str ''join'')
                 \<and> eventDevices (groupCallId s) (getContent e) = Inr devices
                 \<and> (\<exists>d\<in>set devices.
                        isString (get d ''device_id'') \<and> isString (get d ''session_id'')
                      \<and> (\<exists>ts. get d ''expires_ts'' = JNumber ts \<and> js_gt ts (Num (of_int now)))
                      \<and> isArray (get d ''feeds'')
                      \<and> \<not> (\<not> ?entered
                            \<and> userId member = getUserId (client s)
                            \<and> get d ''device_id'' = JString (getDeviceId (client s)))))"
  proof
    fix m
    have keys0: "map_of view0 m \<noteq> None \<longleftrightarrow>
       (\<exists>e\<in>set (memberStateEvents (room s)). \<exists>member devices.
                   getMember (room s) (getStateKey e) = Some member \<and> m = MObj member
                 \<and> membership member = Some (str ''join'')
                 \<and> eventDevices (groupCallId s) (getContent e) = Inr devices
                 \<and> (\<exists>d\<in>set devices.
                        isString (get d ''device_id'') \<and> isString (get d ''session_id'')
                      \<and> (\<exists>ts. get d ''expires_ts'' = JNumber ts \<and> js_gt ts (Num (of_int now)))
                      \<and> isArray (get d ''feeds'')
                      \<and> \<not> (\<not> ?entered
                            \<and> userId member = getUserId (client s)
                            \<and> get d ''device_id'' = JString (getDeviceId (client s)))))"
      unfolding participantsOfEvents_keys[OF ev] dropLocalDevice_nonempty_fields
      by simp
    have "map_of view m \<noteq> None \<longleftrightarrow> (?entered \<and> m = ?lm) \<or> map_of view0 m \<noteq> None"
      using view by (auto simp: localEcho_lookup split: option.splits if_splits)
    then show "map_of view m \<noteq> None \<longleftrightarrow>
             (?entered \<and> m = ?lm)
             \<or> (\<exists>e\<in>set (memberStateEvents (room s)). \<exists>member devices.
                   getMember (room s) (getStateKey e) = Some member \<and> m = MObj member
                 \<and> membership member = Some (str ''join'')
                 \<and> eventDevices (groupCallId s) (getContent e) = Inr devices
                 \<and> (\<exists>d\<in>set devices.
                        isString (get d ''device_id'') \<and> isString (get d ''session_id'')
                      \<and> (\<exists>ts. get d ''expires_ts'' = JNumber ts \<and> js_gt ts (Num (of_int now)))
                      \<and> isArray (get d ''feeds'')
                      \<and> \<not> (\<not> ?entered
                            \<and> userId member = getUserId (client s)
                            \<and> get d ''device_id'' = JString (getDeviceId (client s)))))"
      unfolding keys0 .
  qed
qed


theorem updateParticipants_entries_witness:
  "updateParticipants
     (ex_group_call LocalCallFeedInitialized
        [\<lparr>getStateKey = str ''@b:h'',
          getContent = ex_content ''G'' [ex_device ''DB'' ''s2'' 5000, ex_device ''DC'' ''s3'' 900]\<rparr>])
     1000
   = Inr ([(MObj ex_bob, [(str ''DB'', \<lparr>sessionId = str ''s2'', screensharing = False\<rparr>)])],
          Num 5000)
   \<and> state (ex_group_call LocalCallFeedInitialized
        [\<lparr>getStateKey = str ''@b:h'',
          getContent = ex_content ''G'' [ex_device ''DB'' ''s2'' 5000, ex_device ''DC'' ''s3'' 900]\<rparr>])
       \<noteq> Ended
   \<and> map_of [(MObj ex_bob, [(str ''DB'', \<lparr>sessionId = str ''s2'', screensharing = False\<rparr>)])]
        (MObj ex_alice) = None"
  using updateParticipants_entries
    [of "ex_group_call LocalCallFeedInitialized
        [\<lparr>getStateKey = str ''@b:h'',
          getContent = ex_content ''G'' [ex_device ''DB'' ''s2'' 5000, ex_device ''DC'' ''s3'' 900]\<rparr>]"
        1000
        "[(MObj ex_bob, [(str ''DB'', \<lparr>sessionId = str ''s2'', screensharing = False\<rparr>)])]"
        "Num 5000"]
  by (simp add: updateParticipants_def ex_defs json_defs)

text \<open>
  The claim as the spec states it fails twice. Entered and with no member-state event at
  all, the view holds the local member with the local device: an outer key with no valid
  device record behind it. And in \<open>Ended\<close> the view is empty although \<open>@b:h\<close> is joined and
  advertises a valid, unexpired device.
\<close>

theorem updateParticipants_entries_counterexample:
  "updateParticipants (ex_group_call Entered []) 1000
     = Inr ([(MObj ex_alice, [(str ''DA'', \<lparr>sessionId = str ''s1'', screensharing = False\<rparr>)])],
            PosInf)
   \<and> memberStateEvents (room (ex_group_call Entered [])) = []
   \<and> updateParticipants
       (ex_group_call Ended
          [\<lparr>getStateKey = str ''@b:h'', getContent = ex_content ''G'' [ex_device ''DB'' ''s2'' 5000]\<rparr>])
       1000
     = Inr ([], PosInf)
   \<and> validDevice 1000 (ex_device ''DB'' ''s2'' 5000) = Inr True
   \<and> membership ex_bob = Some (str ''join'')"
  by (simp add: updateParticipants_def ex_defs json_defs)

text \<open>
  What the loops of \<open>updateParticipants\<close> leave at one key: \<open>Map.set\<close> overwrites, so the
  last record of a device id and the last qualifying event of a member decide.
\<close>

lemma addDevices_last:
  "addDevices ds (dm, ne) = Inr (dm', ne') \<Longrightarrow>
     (filter (\<lambda>d. asString (get d ''device_id'') = did) ds = [] \<longrightarrow> map_of dm' did = map_of dm did)
   \<and> (filter (\<lambda>d. asString (get d ''device_id'') = did) ds \<noteq> [] \<longrightarrow>
        (\<exists>sc. someScreenshare (arrayOrEmpty
                 (get (last (filter (\<lambda>d. asString (get d ''device_id'') = did) ds)) ''feeds'')) = Inr sc
            \<and> map_of dm' did =
                Some \<lparr>sessionId = asString
                        (get (last (filter (\<lambda>d. asString (get d ''device_id'') = did) ds)) ''session_id''),
                      screensharing = sc\<rparr>))"
proof (induction ds arbitrary: dm ne)
  case Nil
  then show ?case by simp
next
  case (Cons d ds)
  let ?P = "\<lambda>d. asString (get d ''device_id'') = did"
  from Cons.prems obtain sc where
    sc: "someScreenshare (arrayOrEmpty (get d ''feeds'')) = Inr sc"
    and rest: "addDevices ds
            (AList.update (asString (get d ''device_id''))
               \<lparr>sessionId = asString (get d ''session_id''), screensharing = sc\<rparr> dm,
             if js_lt (asNumber (get d ''expires_ts'')) ne
             then asNumber (get d ''expires_ts'') else ne) = Inr (dm', ne')"
    by (auto split: sum.splits)
  note IH = Cons.IH[OF rest]
  show ?case
  proof (cases "filter ?P ds = []")
    case True
    with IH have "map_of dm' did = map_of (AList.update (asString (get d ''device_id''))
               \<lparr>sessionId = asString (get d ''session_id''), screensharing = sc\<rparr> dm) did"
      by simp
    with True sc show ?thesis
      by (auto simp: update_conv')
  next
    case False
    then have "last (filter ?P (d # ds)) = last (filter ?P ds)"
      by simp
    with False IH show ?thesis
      by auto
  qed
qed

lemma participantsOfEvents_last:
  fixes m :: member_key
  assumes "participantsOfEvents s now entered es (view, ne) = Inr (view', ne')"
  defines "qual \<equiv> \<lambda>e. case getMember (room s) (getStateKey e) of
              None \<Rightarrow> False
            | Some member \<Rightarrow>
                MObj member = m \<and> membership member = Some (str ''join'')
              \<and> (case eventDevices (groupCallId s) (getContent e) of
                    Inl err \<Rightarrow> False
                  | Inr devices \<Rightarrow>
                      dropLocalDevice s entered (Some member)
                        (filter (\<lambda>d. validDevice now d = Inr True) devices) \<noteq> [])"
  shows "(filter qual es = [] \<longrightarrow> map_of view' m = map_of view m)
       \<and> (filter qual es \<noteq> [] \<longrightarrow>
            (\<exists>member devices dm ne0 ne1.
                getMember (room s) (getStateKey (last (filter qual es))) = Some member
              \<and> eventDevices (groupCallId s) (getContent (last (filter qual es))) = Inr devices
              \<and> addDevices (dropLocalDevice s entered (Some member)
                   (filter (\<lambda>d. validDevice now d = Inr True) devices)) ([], ne0) = Inr (dm, ne1)
              \<and> map_of view' m = Some dm))"
  using assms(1)
proof (induction es arbitrary: view ne)
  case Nil
  then show ?case by simp
next
  case (Cons e es)
  from Cons.prems obtain devices where dev: "eventDevices (groupCallId s) (getContent e) = Inr devices"
    by (auto simp: Let_def split: sum.splits)
  from Cons.prems dev obtain valid where val: "filterE (validDevice now) devices = Inr valid"
    by (auto simp: Let_def split: sum.splits)
  have valid: "valid = filter (\<lambda>d. validDevice now d = Inr True) devices"
    using filterE_Inr[OF val] .
  show ?case
  proof (cases "\<exists>member. getMember (room s) (getStateKey e) = Some member
                  \<and> dropLocalDevice s entered (Some member) valid \<noteq> []
                  \<and> membership member = Some (str ''join'')")
    case False
    then have nq: "\<not> qual e"
      using dev valid by (auto simp: qual_def split: option.splits)
    from False Cons.prems dev val have
      "participantsOfEvents s now entered es (view, ne) = Inr (view', ne')"
      by (auto simp: Let_def split: option.splits)
    from Cons.IH[OF this] nq show ?thesis
      by simp
  next
    case True
    then obtain member where mem: "getMember (room s) (getStateKey e) = Some member"
      and vd: "dropLocalDevice s entered (Some member) valid \<noteq> []"
      and join: "membership member = Some (str ''join'')"
      by auto
    let ?vd = "dropLocalDevice s entered (Some member) valid"
    from Cons.prems mem vd join dev val obtain dm0 ne0 where
      add: "addDevices ?vd ([], ne) = Inr (dm0, ne0)" and
      rest: "participantsOfEvents s now entered es (AList.update (MObj member) dm0 view, ne0) = Inr (view', ne')"
      by (auto simp: Let_def split: sum.splits)
    have q: "qual e \<longleftrightarrow> MObj member = m"
      using mem vd join dev valid by (simp add: qual_def)
    note IH = Cons.IH[OF rest]
    show ?thesis
    proof (cases "filter qual es = []")
      case False
      then have "last (filter qual (e # es)) = last (filter qual es)"
        by simp
      with False IH show ?thesis
        by auto
    next
      case True
      with IH have v: "map_of view' m = map_of (AList.update (MObj member) dm0 view) m"
        by simp
      show ?thesis
      proof (cases "MObj member = m")
        case False
        with v q True show ?thesis
          by (auto simp: update_conv')
      next
        case eq: True
        with q True have l: "filter qual (e # es) = [e]"
          by simp
        from eq v have "map_of view' m = Some dm0"
          by (auto simp: update_conv')
        with l mem dev add valid show ?thesis
          by auto
      qed
    qed
  qed
qed


lemma dropLocalDevice_entered: "dropLocalDevice s True member validDevices = validDevices"
  by (simp add: dropLocalDevice_def)

lemma filter_own_device:
  "filter (\<lambda>d. asString (get d ''device_id'') = did) (filter (\<lambda>d. validDevice now d = Inr True) devices)
     = filter (\<lambda>d. validDevice now d = Inr True \<and> get d ''device_id'' = JString did) devices"
proof -
  have "validDevice now d = Inr True \<Longrightarrow>
          asString (get d ''device_id'') = did \<longleftrightarrow> get d ''device_id'' = JString did" for d
    unfolding validDevice_True isString_conv[of "get d ''device_id''"] by auto
  then show ?thesis
    unfolding filter_filter by (intro filter_cong) auto
qed

text \<open>
  C4, as the code has it. When we do not count as entered (the state is not \<open>Entered\<close> and
  \<open>enteredViaAnotherSession\<close> is false), no member of the view with the local user id has
  an entry for the local device id, whatever the member-state events advertise. When we
  count as entered and the group call has not ended, the view has an entry for the local
  member and the local device id, and the member-state events decide what it carries. Take
  the last member-state event of the local member that is joined and holds a valid record.
  If there is one and it holds a valid record for the local device id, the entry carries
  the \<open>session_id\<close> of the last such record and the screensharing bit of that record's
  feeds: the echo does not overwrite it. Otherwise the entry carries
  \<open>client.getSessionId()\<close> and the screensharing bit of the local feeds.
\<close>

theorem updateParticipants_local_echo:
  "updateParticipants s now = Inr (view, nextExpiration) \<Longrightarrow>
   (\<not> (state s = Entered \<or> enteredViaAnotherSession s) \<longrightarrow>
      (\<forall>member deviceMap.
         map_of view (MObj member) = Some deviceMap \<and> userId member = getUserId (client s)
           \<longrightarrow> map_of deviceMap (getDeviceId (client s)) = None)
      \<and> map_of view MNull = None \<and> map_of view MUndefined = None)
   \<and> ((state s = Entered \<or> enteredViaAnotherSession s) \<and> state s \<noteq> Ended \<longrightarrow>
        (\<exists>deviceMap p.
           map_of view (ofGetMember (getMember (room s) (getUserId (client s)))) = Some deviceMap
         \<and> map_of deviceMap (getDeviceId (client s)) = Some p
         \<and> (let own = filter
                  (\<lambda>e. case getMember (room s) (getStateKey e) of
                          None \<Rightarrow> False
                        | Some member \<Rightarrow>
                            MObj member = ofGetMember (getMember (room s) (getUserId (client s)))
                          \<and> membership member = Some (str ''join'')
                          \<and> (case eventDevices (groupCallId s) (getContent e) of
                                Inl err \<Rightarrow> False
                              | Inr devices \<Rightarrow>
                                  filter (\<lambda>d. validDevice now d = Inr True) devices \<noteq> []))
                  (memberStateEvents (room s));
                mine = (if own = [] then []
                        else case eventDevices (groupCallId s) (getContent (last own)) of
                               Inl err \<Rightarrow> []
                             | Inr devices \<Rightarrow>
                                 filter (\<lambda>d. validDevice now d = Inr True
                                           \<and> get d ''device_id'' = JString (getDeviceId (client s)))
                                   devices)
            in if mine = []
               then p = \<lparr>sessionId = getSessionId (client s),
                         screensharing = list_ex (\<lambda>f. purpose (feedObj s f) = Screenshare)
                                           (getLocalFeeds s)\<rparr>
               else get (last mine) ''session_id'' = JString (sessionId p)
                  \<and> someScreenshare (arrayOrEmpty (get (last mine) ''feeds''))
                      = Inr (screensharing p))))"
proof (intro conjI impI)
  assume up: "updateParticipants s now = Inr (view, nextExpiration)"
    and ne: "\<not> (state s = Entered \<or> enteredViaAnotherSession s)"
  have ev: "state s \<noteq> Ended \<Longrightarrow>
        participantsOfEvents s now False (memberStateEvents (room s)) ([], PosInf)
           = Inr (view, nextExpiration)"
    using up ne by (auto simp: updateParticipants_def Let_def split: sum.splits if_splits)
  have empty: "state s = Ended \<Longrightarrow> view = []"
    using up by (simp add: updateParticipants_def)
  show "\<forall>member deviceMap.
         map_of view (MObj member) = Some deviceMap \<and> userId member = getUserId (client s)
           \<longrightarrow> map_of deviceMap (getDeviceId (client s)) = None"
  proof (intro allI impI, elim conjE)
    fix member deviceMap
    assume m: "map_of view (MObj member) = Some deviceMap"
      and u: "userId member = getUserId (client s)"
    from m empty have st: "state s \<noteq> Ended" by auto
    from participantsOfEvents_lookup[OF ev[OF st] m] obtain devices ne0 ne1 where
      add: "addDevices (dropLocalDevice s False (Some member)
                 (filter (\<lambda>d. validDevice now d = Inr True) devices)) ([], ne0) = Inr (deviceMap, ne1)"
      by auto
    show "map_of deviceMap (getDeviceId (client s)) = None"
    proof (rule ccontr)
      assume "map_of deviceMap (getDeviceId (client s)) \<noteq> None"
      then obtain p where "map_of deviceMap (getDeviceId (client s)) = Some p" by auto
      from device_of_entry[OF add this] u show False by auto
    qed
  qed
  have keys: "map_of view m = None" if "\<And>member. m \<noteq> MObj member" for m
  proof (cases "state s = Ended")
    case True
    with empty show ?thesis by simp
  next
    case False
    show ?thesis
      using participantsOfEvents_keys[OF ev[OF False], of m] that by auto
  qed
  show "map_of view MNull = None"
    by (rule keys) simp
  show "map_of view MUndefined = None"
    by (rule keys) simp
next
  assume up: "updateParticipants s now = Inr (view, nextExpiration)"
    and en: "(state s = Entered \<or> enteredViaAnotherSession s) \<and> state s \<noteq> Ended"
  let ?lm = "ofGetMember (getMember (room s) (getUserId (client s)))"
  let ?dev = "getDeviceId (client s)"
  let ?echo = "\<lparr>sessionId = getSessionId (client s),
                  screensharing = list_ex (\<lambda>f. purpose (feedObj s f) = Screenshare) (getLocalFeeds s)\<rparr>"
  let ?qual = "\<lambda>e. case getMember (room s) (getStateKey e) of
                          None \<Rightarrow> False
                        | Some member \<Rightarrow>
                            MObj member = ?lm
                          \<and> membership member = Some (str ''join'')
                          \<and> (case eventDevices (groupCallId s) (getContent e) of
                                Inl err \<Rightarrow> False
                              | Inr devices \<Rightarrow>
                                  filter (\<lambda>d. validDevice now d = Inr True) devices \<noteq> [])"
  let ?own = "filter ?qual (memberStateEvents (room s))"
  let ?mine = "if ?own = [] then []
                        else case eventDevices (groupCallId s) (getContent (last ?own)) of
                               Inl err \<Rightarrow> []
                             | Inr devices \<Rightarrow>
                                 filter (\<lambda>d. validDevice now d = Inr True
                                           \<and> get d ''device_id'' = JString ?dev)
                                   devices"
  from up en obtain view0 where
    ev: "participantsOfEvents s now True (memberStateEvents (room s)) ([], PosInf)
           = Inr (view0, nextExpiration)"
    and view: "view = localEcho s view0"
    by (auto simp: updateParticipants_def Let_def split: sum.splits if_splits)
  note last = participantsOfEvents_last[OF ev, of ?lm, unfolded dropLocalDevice_entered]
  have "\<exists>deviceMap p. map_of view ?lm = Some deviceMap \<and> map_of deviceMap ?dev = Some p
          \<and> (if ?mine = [] then p = ?echo
              else get (last ?mine) ''session_id'' = JString (sessionId p)
                 \<and> someScreenshare (arrayOrEmpty (get (last ?mine) ''feeds''))
                      = Inr (screensharing p))"
  proof (cases "?own = []")
    case True
    with last have "map_of view0 ?lm = None"
      by simp
    then have "map_of view ?lm = Some [(?dev, ?echo)]"
      by (simp add: view localEcho_lookup)
    with True show ?thesis by simp
  next
    case False
    with last obtain devices dm ne0 ne1 where
      dev: "eventDevices (groupCallId s) (getContent (last ?own)) = Inr devices"
      and add: "addDevices (filter (\<lambda>d. validDevice now d = Inr True) devices) ([], ne0) = Inr (dm, ne1)"
      and v0: "map_of view0 ?lm = Some dm"
      by auto
    let ?m = "filter (\<lambda>d. validDevice now d = Inr True \<and> get d ''device_id'' = JString ?dev) devices"
    from False dev have mine: "?mine = ?m"
      by simp
    note al = addDevices_last[OF add, of ?dev, unfolded filter_own_device]
    show ?thesis
    proof (cases "?m = []")
      case True
      with al have "map_of dm ?dev = None"
        by simp
      with v0 have "map_of view ?lm = Some (AList.update ?dev ?echo dm)"
        by (simp add: view localEcho_lookup)
      with True show ?thesis
        unfolding mine by (simp add: update_conv')
    next
      case ne: False
      with al obtain sc where
        sc: "someScreenshare (arrayOrEmpty (get (last ?m) ''feeds'')) = Inr sc"
        and p: "map_of dm ?dev = Some \<lparr>sessionId = asString (get (last ?m) ''session_id''),
                                       screensharing = sc\<rparr>"
        by auto
      from ne have "last ?m \<in> set ?m"
        by (rule last_in_set)
      then have "validDevice now (last ?m) = Inr True"
        by simp
      then have "isString (get (last ?m) ''session_id'')"
        using validDevice_True[of now "last ?m"] by blast
      then have sid: "get (last ?m) ''session_id'' = JString (asString (get (last ?m) ''session_id''))"
        by (rule isString_conv[THEN iffD1])
      from v0 p have "map_of view ?lm = Some dm"
        by (simp add: view localEcho_lookup)
      with p sc sid ne show ?thesis
        unfolding mine by simp
    qed
  qed
  then show "\<exists>deviceMap p. map_of view ?lm = Some deviceMap \<and> map_of deviceMap ?dev = Some p
          \<and> (let own = ?own; mine = (if own = [] then []
                        else case eventDevices (groupCallId s) (getContent (last own)) of
                               Inl err \<Rightarrow> []
                             | Inr devices \<Rightarrow>
                                 filter (\<lambda>d. validDevice now d = Inr True
                                           \<and> get d ''device_id'' = JString ?dev)
                                   devices)
              in if mine = [] then p = ?echo
              else get (last mine) ''session_id'' = JString (sessionId p)
                 \<and> someScreenshare (arrayOrEmpty (get (last mine) ''feeds''))
                      = Inr (screensharing p))"
    unfolding Let_def .
qed

theorem updateParticipants_local_echo_witness:
  "updateParticipants (ex_group_call Entered []) 1000
     = Inr ([(MObj ex_alice, [(str ''DA'', \<lparr>sessionId = str ''s1'', screensharing = False\<rparr>)])],
            PosInf)
   \<and> state (ex_group_call Entered []) = Entered
   \<and> getSessionId (client (ex_group_call Entered [])) = str ''s1''
   \<and> updateParticipants
        (ex_group_call Entered
           [\<lparr>getStateKey = str ''@a:h'',
             getContent = ex_content ''G'' [ex_device ''DA'' ''s0'' 5000, ex_device ''DA'' ''s7'' 6000]\<rparr>])
        1000
      = Inr ([(MObj ex_alice, [(str ''DA'', \<lparr>sessionId = str ''s7'', screensharing = False\<rparr>)])],
             Num 5000)
   \<and> updateParticipants
        (ex_group_call LocalCallFeedInitialized
           [\<lparr>getStateKey = str ''@a:h'',
             getContent = ex_content ''G'' [ex_device ''DA'' ''s0'' 5000, ex_device ''DB'' ''s7'' 6000]\<rparr>])
        1000
      = Inr ([(MObj ex_alice, [(str ''DB'', \<lparr>sessionId = str ''s7'', screensharing = False\<rparr>)])],
             Num 6000)"
  using updateParticipants_local_echo
    [of "ex_group_call Entered []" 1000
        "[(MObj ex_alice, [(str ''DA'', \<lparr>sessionId = str ''s1'', screensharing = False\<rparr>)])]"
        PosInf]
    updateParticipants_local_echo
    [of "ex_group_call Entered
           [\<lparr>getStateKey = str ''@a:h'',
             getContent = ex_content ''G'' [ex_device ''DA'' ''s0'' 5000, ex_device ''DA'' ''s7'' 6000]\<rparr>]"
        1000
        "[(MObj ex_alice, [(str ''DA'', \<lparr>sessionId = str ''s7'', screensharing = False\<rparr>)])]"
        "Num 5000"]
    updateParticipants_local_echo
    [of "ex_group_call LocalCallFeedInitialized
           [\<lparr>getStateKey = str ''@a:h'',
             getContent = ex_content ''G'' [ex_device ''DA'' ''s0'' 5000, ex_device ''DB'' ''s7'' 6000]\<rparr>]"
        1000
        "[(MObj ex_alice, [(str ''DB'', \<lparr>sessionId = str ''s7'', screensharing = False\<rparr>)])]"
        "Num 6000"]
  by (simp add: updateParticipants_def ex_defs json_defs)

text \<open>
  The claim as the spec states it fails where we have entered and our own member-state
  event still advertises the local device under another session (say from before a
  restart): the entry of the view keeps the advertised session \<open>s0\<close>, not
  \<open>client.getSessionId()\<close>, which is \<open>s1\<close>.
\<close>

theorem updateParticipants_local_echo_counterexample:
  "updateParticipants
     (ex_group_call Entered
        [\<lparr>getStateKey = str ''@a:h'', getContent = ex_content ''G'' [ex_device ''DA'' ''s0'' 5000]\<rparr>])
     1000
   = Inr ([(MObj ex_alice, [(str ''DA'', \<lparr>sessionId = str ''s0'', screensharing = False\<rparr>)])],
          Num 5000)
   \<and> getSessionId (client (ex_group_call Entered
        [\<lparr>getStateKey = str ''@a:h'', getContent = ex_content ''G'' [ex_device ''DA'' ''s0'' 5000]\<rparr>]))
      = str ''s1''
   \<and> str ''s0'' \<noteq> str ''s1''"
  by (simp add: updateParticipants_def ex_defs json_defs)

section \<open>The membership publisher: properties\<close>

lemma partitionCalls_Inr:
  "partitionCalls gid cs (found, others) = Inr (found', others') \<Longrightarrow>
     others' = others @ filter (\<lambda>c. get c ''m.call_id'' \<noteq> JString gid) cs
     \<and> found' = (if filter (\<lambda>c. get c ''m.call_id'' = JString gid) cs = [] then found
                 else Some (last (filter (\<lambda>c. get c ''m.call_id'' = JString gid) cs)))"
proof (induction cs arbitrary: found others)
  case Nil
  then show ?case by simp
next
  case (Cons c cs)
  from Cons.prems have nn: "\<not> nullish c"
    by (auto simp: getProp_def split: if_splits)
  show ?case
  proof (cases "get c ''m.call_id'' = JString gid")
    case True
    with Cons.prems nn have "partitionCalls gid cs (Some c, others) = Inr (found', others')"
      by (simp add: getProp_def)
    from Cons.IH[OF this] True show ?thesis by simp
  next
    case False
    with Cons.prems nn have "partitionCalls gid cs (found, others @ [c]) = Inr (found', others')"
      by (simp add: getProp_def)
    from Cons.IH[OF this] False show ?thesis by simp
  qed
qed

text \<open>What \<open>updateDevices\<close> reads: the stored entries, and the valid devices of this call's.\<close>

lemma updateDevices_Inr:
  assumes "updateDevices s now fn keepAlive = Inr r"
  defines "cs \<equiv> (case getMemberStateEvent (room s) (getUserId (client s)) of
                    None \<Rightarrow> []
                  | Some e \<Rightarrow> arrayOrEmpty (get (getContent e) ''m.calls''))"
  defines "ours \<equiv> filter (\<lambda>c. get c ''m.call_id'' = JString (groupCallId s)) cs"
  defines "call \<equiv> (if ours = [] then JObject [] else last ours)"
  defines "validDevices \<equiv> filter (\<lambda>d. validDevice now d = Inr True)
                             (arrayOrEmpty (get call ''m.devices''))"
  shows "r = (case fn validDevices of
                None \<Rightarrow> None
              | Some newDevices \<Rightarrow>
                  Some \<lparr>write_content = JObject [(''m.calls'', JArray
                          (filter (\<lambda>c. get c ''m.call_id'' \<noteq> JString (groupCallId s)) cs
                           @ (if newDevices \<noteq> []
                              then [JObject (AList.update ''m.devices'' (JArray newDevices)
                                      (AList.update ''m.call_id'' (JString (groupCallId s))
                                         (spread call)))]
                              else [])))],
                        write_stateKey = getUserId (client s),
                        write_keepAlive = keepAlive\<rparr>)"
proof -
  let ?content = "(case getMemberStateEvent (room s) (getUserId (client s)) of
                       None \<Rightarrow> JObject []
                     | Some e \<Rightarrow> if nullish (getContent e) then JObject [] else getContent e)"
  have cs: "arrayOrEmpty (get ?content ''m.calls'') = cs"
    by (auto simp: cs_def nullish_def split: option.splits)
  from assms(1) obtain found others where
    part: "partitionCalls (groupCallId s) cs (None, []) = Inr (found, others)"
    unfolding updateDevices_def Let_def cs by (auto split: sum.splits)
  from partitionCalls_Inr[OF part] have
    others: "others = filter (\<lambda>c. get c ''m.call_id'' \<noteq> JString (groupCallId s)) cs"
    and found: "(case found of None \<Rightarrow> JObject [] | Some c \<Rightarrow> c) = call"
    by (auto simp: call_def ours_def)
  from assms(1) part found obtain valid where
    val: "filterE (validDevice now) (arrayOrEmpty (get call ''m.devices'')) = Inr valid"
    unfolding updateDevices_def Let_def cs by (auto split: sum.splits)
  from filterE_Inr[OF val] have valid: "valid = validDevices"
    by (simp add: validDevices_def)
  from assms(1) part found val show ?thesis
    unfolding updateDevices_def Let_def cs
    by (auto simp: valid others split: option.splits)
qed

lemma get_update_same: "get (JObject (AList.update k v kvs)) k = v"
  by (simp add: update_conv')

lemma get_update_other: "k' \<noteq> k \<Longrightarrow> get (JObject (AList.update k v kvs)) k' = get (JObject kvs) k'"
  by (simp add: update_conv')

text \<open>
  C6, as the code has it. The write is aborted when the mutation returns \<open>null\<close>. Otherwise
  one event is written, with the local user id as state key, whose \<open>m.calls\<close> holds every
  stored entry of another \<open>m.call_id\<close>, verbatim and in order, followed by an entry for this
  group call iff the new device list is not empty; that entry's \<open>m.devices\<close> is the list
  the mutation returned, as it returned it. \<open>updateDevices\<close> sets no \<open>expires_ts\<close>: with
  the mutation of \<open>addDeviceToMemberState\<close> the list is the stored valid devices of other
  device ids, unchanged, followed by the local device with
  \<open>expires_ts = Date.now() + DEVICE_TIMEOUT\<close>, where \<open>DEVICE_TIMEOUT\<close> is 3600000 ms.
\<close>

theorem updateDevices_read_modify_write:
  "updateDevices s now fn keepAlive = Inr r \<Longrightarrow>
   (let cs = (case getMemberStateEvent (room s) (getUserId (client s)) of
                None \<Rightarrow> []
              | Some e \<Rightarrow> arrayOrEmpty (get (getContent e) ''m.calls''));
        ours = filter (\<lambda>c. get c ''m.call_id'' = JString (groupCallId s)) cs;
        others = filter (\<lambda>c. get c ''m.call_id'' \<noteq> JString (groupCallId s)) cs;
        validDevices = filter (\<lambda>d. validDevice now d = Inr True)
          (arrayOrEmpty (get (if ours = [] then JObject [] else last ours) ''m.devices''))
    in (fn validDevices = None \<longrightarrow> r = None)
     \<and> (\<forall>newDevices. fn validDevices = Some newDevices \<longrightarrow>
          (\<exists>w newCalls.
             r = Some w \<and> write_stateKey w = getUserId (client s) \<and> write_keepAlive w = keepAlive
           \<and> write_content w = JObject [(''m.calls'', JArray newCalls)]
           \<and> (if newDevices = [] then newCalls = others
               else \<exists>entry. newCalls = others @ [entry]
                      \<and> get entry ''m.call_id'' = JString (groupCallId s)
                      \<and> get entry ''m.devices'' = JArray newDevices)))
     \<and> (\<forall>now'. fn = addDevice s now' \<longrightarrow>
          (\<exists>w entry d.
             r = Some w
           \<and> write_content w = JObject [(''m.calls'', JArray (others @ [entry]))]
           \<and> get entry ''m.devices'' = JArray
                (filter (\<lambda>d. get d ''device_id'' \<noteq> JString (getDeviceId (client s))) validDevices
                 @ [d])
           \<and> get d ''device_id'' = JString (getDeviceId (client s))
           \<and> get d ''session_id'' = JString (getSessionId (client s))
           \<and> get d ''expires_ts'' = JNumber (Num (of_int (now' + 3600000))))))"
proof -
  assume up: "updateDevices s now fn keepAlive = Inr r"
  note r = updateDevices_Inr[OF up]
  show ?thesis
    unfolding Let_def
  proof (intro conjI allI impI)
    assume "fn (filter (\<lambda>d. validDevice now d = Inr True)
          (arrayOrEmpty (get (if filter (\<lambda>c. get c ''m.call_id'' = JString (groupCallId s))
             (case getMemberStateEvent (room s) (getUserId (client s)) of
                None \<Rightarrow> []
              | Some e \<Rightarrow> arrayOrEmpty (get (getContent e) ''m.calls'')) = [] then JObject []
           else last (filter (\<lambda>c. get c ''m.call_id'' = JString (groupCallId s))
             (case getMemberStateEvent (room s) (getUserId (client s)) of
                None \<Rightarrow> []
              | Some e \<Rightarrow> arrayOrEmpty (get (getContent e) ''m.calls'')))) ''m.devices''))) = None"
    with r show "r = None" by simp
  next
    fix newDevices
    assume "fn (filter (\<lambda>d. validDevice now d = Inr True)
          (arrayOrEmpty (get (if filter (\<lambda>c. get c ''m.call_id'' = JString (groupCallId s))
             (case getMemberStateEvent (room s) (getUserId (client s)) of
                None \<Rightarrow> []
              | Some e \<Rightarrow> arrayOrEmpty (get (getContent e) ''m.calls'')) = [] then JObject []
           else last (filter (\<lambda>c. get c ''m.call_id'' = JString (groupCallId s))
             (case getMemberStateEvent (room s) (getUserId (client s)) of
                None \<Rightarrow> []
              | Some e \<Rightarrow> arrayOrEmpty (get (getContent e) ''m.calls'')))) ''m.devices''))) = Some newDevices"
    with r show "\<exists>w newCalls.
             r = Some w \<and> write_stateKey w = getUserId (client s) \<and> write_keepAlive w = keepAlive
           \<and> write_content w = JObject [(''m.calls'', JArray newCalls)]
           \<and> (if newDevices = [] then newCalls = filter (\<lambda>c. get c ''m.call_id'' \<noteq> JString (groupCallId s))
             (case getMemberStateEvent (room s) (getUserId (client s)) of
                None \<Rightarrow> []
              | Some e \<Rightarrow> arrayOrEmpty (get (getContent e) ''m.calls''))
               else \<exists>entry. newCalls = filter (\<lambda>c. get c ''m.call_id'' \<noteq> JString (groupCallId s))
             (case getMemberStateEvent (room s) (getUserId (client s)) of
                None \<Rightarrow> []
              | Some e \<Rightarrow> arrayOrEmpty (get (getContent e) ''m.calls'')) @ [entry]
                      \<and> get entry ''m.call_id'' = JString (groupCallId s)
                      \<and> get entry ''m.devices'' = JArray newDevices)"
      by (simp add: get_update_same get_update_other del: get.simps)
  next
    fix now'
    assume "fn = addDevice s now'"
    with r show "\<exists>w entry d.
             r = Some w
           \<and> write_content w = JObject [(''m.calls'', JArray
                (filter (\<lambda>c. get c ''m.call_id'' \<noteq> JString (groupCallId s))
             (case getMemberStateEvent (room s) (getUserId (client s)) of
                None \<Rightarrow> []
              | Some e \<Rightarrow> arrayOrEmpty (get (getContent e) ''m.calls'')) @ [entry]))]
           \<and> get entry ''m.devices'' = JArray
                (filter (\<lambda>d. get d ''device_id'' \<noteq> JString (getDeviceId (client s)))
                   (filter (\<lambda>d. validDevice now d = Inr True)
          (arrayOrEmpty (get (if filter (\<lambda>c. get c ''m.call_id'' = JString (groupCallId s))
             (case getMemberStateEvent (room s) (getUserId (client s)) of
                None \<Rightarrow> []
              | Some e \<Rightarrow> arrayOrEmpty (get (getContent e) ''m.calls'')) = [] then JObject []
           else last (filter (\<lambda>c. get c ''m.call_id'' = JString (groupCallId s))
             (case getMemberStateEvent (room s) (getUserId (client s)) of
                None \<Rightarrow> []
              | Some e \<Rightarrow> arrayOrEmpty (get (getContent e) ''m.calls'')))) ''m.devices'')))
                 @ [d])
           \<and> get d ''device_id'' = JString (getDeviceId (client s))
           \<and> get d ''session_id'' = JString (getSessionId (client s))
           \<and> get d ''expires_ts'' = JNumber (Num (of_int (now' + 3600000)))"
      by (simp add: addDevice_def DEVICE_TIMEOUT_def get_update_same del: get.simps) simp
  qed
qed

theorem updateDevices_read_modify_write_witness:
  "addDeviceToMemberState (ex_group_call Entered [ex_own_event [ex_device ''DX'' ''s9'' 5000]])
     1000 1001
   = Inr (Some
       \<lparr>write_content = JObject [(''m.calls'', JArray
          [JObject [(''m.call_id'', JString (str ''H'')),
                    (''m.devices'', JArray [ex_device ''DA'' ''s1'' 7000])],
           JObject [(''m.call_id'', JString (str ''G'')),
                    (''m.devices'', JArray
                       [ex_device ''DX'' ''s9'' 5000,
                        JObject [(''device_id'', JString (str ''DA'')),
                                 (''session_id'', JString (str ''s1'')),
                                 (''expires_ts'', JNumber (Num 3601001)),
                                 (''feeds'', JArray [])]])]])],
        write_stateKey = str ''@a:h'', write_keepAlive = False\<rparr>)"
  using updateDevices_read_modify_write
    [of "ex_group_call Entered [ex_own_event [ex_device ''DX'' ''s9'' 5000]]" 1000
        "addDevice (ex_group_call Entered [ex_own_event [ex_device ''DX'' ''s9'' 5000]]) 1001" False]
  by (simp add: addDeviceToMemberState_def updateDevices_def addDevice_def DEVICE_TIMEOUT_def
        getMemberStateEvent_def ex_defs json_defs)

text \<open>
  The claim as the spec states it fails for the mutation that \<open>updateMemberState\<close> applies
  on leaving: at \<open>now = 1000\<close>, with another device \<open>DX\<close> of ours stored under
  \<open>expires_ts = 1005\<close>, the written entry still carries \<open>DX\<close> with \<open>expires_ts = 1005\<close>,
  which is not \<open>now + DEVICE_TIMEOUT\<close>.
\<close>

theorem updateDevices_read_modify_write_counterexample:
  "updateDevices
     (ex_group_call LocalCallFeedUninitialized [ex_own_event [ex_device ''DX'' ''s9'' 1005]]) 1000
     (removeDevice
        (ex_group_call LocalCallFeedUninitialized [ex_own_event [ex_device ''DX'' ''s9'' 1005]])) True
   = Inr (Some
       \<lparr>write_content = JObject [(''m.calls'', JArray
          [JObject [(''m.call_id'', JString (str ''H'')),
                    (''m.devices'', JArray [ex_device ''DA'' ''s1'' 7000])],
           JObject [(''m.call_id'', JString (str ''G'')),
                    (''m.devices'', JArray [ex_device ''DX'' ''s9'' 1005])]])],
        write_stateKey = str ''@a:h'', write_keepAlive = True\<rparr>)
   \<and> get (ex_device ''DX'' ''s9'' 1005) ''expires_ts'' = JNumber (Num 1005)
   \<and> (1005 :: int) \<noteq> 1000 + DEVICE_TIMEOUT"
  by (simp add: updateDevices_def removeDevice_def DEVICE_TIMEOUT_def getMemberStateEvent_def
        ex_defs json_defs)

text \<open>
  C7, as the code has it. \<open>cleanMemberState\<close> writes nothing iff its filter removes
  nothing from the list it is given, and writes iff the filter removes a device. The list
  it is given is not the stored one but the structurally valid, unexpired devices of this
  call's stored entry (\<open>updateDevices\<close> drops the others first), and the filter keeps a
  device iff the identity service lists its id with a \<open>last_seen_ts\<close> and it is not the
  local device while we have neither entered nor entered via another session.
\<close>

theorem cleanMemberState_skips_write:
  "cleanMemberState s now myDevices = Inr r \<Longrightarrow>
   (let cs = (case getMemberStateEvent (room s) (getUserId (client s)) of
                None \<Rightarrow> []
              | Some e \<Rightarrow> arrayOrEmpty (get (getContent e) ''m.calls''));
        ours = filter (\<lambda>c. get c ''m.call_id'' = JString (groupCallId s)) cs;
        validDevices = filter (\<lambda>d. validDevice now d = Inr True)
          (arrayOrEmpty (get (if ours = [] then JObject [] else last ours) ''m.devices''))
    in (r = None \<longleftrightarrow> filter (keepDevice s myDevices) validDevices = validDevices)
     \<and> (r \<noteq> None \<longleftrightarrow> (\<exists>d\<in>set validDevices. \<not> keepDevice s myDevices d))
     \<and> (\<forall>d i. get d ''device_id'' = JString i \<longrightarrow>
          (keepDevice s myDevices d \<longleftrightarrow>
             (\<exists>dev. map_of (myDeviceMap myDevices) i = Some dev \<and> last_seen_ts dev \<noteq> None)
           \<and> \<not> (i = getDeviceId (client s) \<and> state s \<noteq> Entered
                 \<and> \<not> enteredViaAnotherSession s))))"
proof -
  assume "cleanMemberState s now myDevices = Inr r"
  then have up: "updateDevices s now (cleanDevices s myDevices) False = Inr r"
    by (simp add: cleanMemberState_def)
  have len: "length (filter p xs) = length xs \<longleftrightarrow> filter p xs = xs" for p and xs :: "json list"
    by (metis filter_True length_filter_less less_irrefl)
  have none: "cleanDevices s myDevices ds = None \<longleftrightarrow> filter (keepDevice s myDevices) ds = ds" for ds
    by (simp add: cleanDevices_def Let_def len)
  have ex: "filter p xs = xs \<longleftrightarrow> \<not> (\<exists>d\<in>set xs. \<not> p d)" for p and xs :: "json list"
    by (simp add: filter_id_conv)
  have keep: "keepDevice s myDevices d \<longleftrightarrow>
             (\<exists>dev. map_of (myDeviceMap myDevices) i = Some dev \<and> last_seen_ts dev \<noteq> None)
           \<and> \<not> (i = getDeviceId (client s) \<and> state s \<noteq> Entered
                 \<and> \<not> enteredViaAnotherSession s)"
    if "get d ''device_id'' = JString i" for d i
    using that by (auto simp: keepDevice_def Let_def split: option.splits)
  define vd where "vd = filter (\<lambda>d. validDevice now d = Inr True)
          (arrayOrEmpty (get (if filter (\<lambda>c. get c ''m.call_id'' = JString (groupCallId s))
             (case getMemberStateEvent (room s) (getUserId (client s)) of
                None \<Rightarrow> []
              | Some e \<Rightarrow> arrayOrEmpty (get (getContent e) ''m.calls'')) = [] then JObject []
           else last (filter (\<lambda>c. get c ''m.call_id'' = JString (groupCallId s))
             (case getMemberStateEvent (room s) (getUserId (client s)) of
                None \<Rightarrow> []
              | Some e \<Rightarrow> arrayOrEmpty (get (getContent e) ''m.calls'')))) ''m.devices''))"
  have "r = None \<longleftrightarrow> cleanDevices s myDevices vd = None"
    using updateDevices_Inr[OF up] unfolding vd_def[symmetric]
    by (simp split: option.splits)
  then have r: "r = None \<longleftrightarrow> filter (keepDevice s myDevices) vd = vd"
    by (simp add: none)
  show ?thesis
    unfolding Let_def vd_def[symmetric]
  proof (intro conjI allI impI)
    show "r = None \<longleftrightarrow> filter (keepDevice s myDevices) vd = vd" by (rule r)
    show "r \<noteq> None \<longleftrightarrow> (\<exists>d\<in>set vd. \<not> keepDevice s myDevices d)"
      unfolding r ex by simp
  next
    fix d i
    assume "get d ''device_id'' = JString i"
    then show "keepDevice s myDevices d \<longleftrightarrow>
             (\<exists>dev. map_of (myDeviceMap myDevices) i = Some dev \<and> last_seen_ts dev \<noteq> None)
           \<and> \<not> (i = getDeviceId (client s) \<and> state s \<noteq> Entered
                 \<and> \<not> enteredViaAnotherSession s)"
      by (rule keep)
  qed
qed

theorem cleanMemberState_skips_write_witness:
  "cleanMemberState (ex_group_call Entered [ex_own_event [ex_device ''DX'' ''s9'' 5000]]) 1000
     [\<lparr>my_device_id = str ''DX'', last_seen_ts = Some (Num 900)\<rparr>]
   = Inr None
   \<and> keepDevice (ex_group_call Entered [ex_own_event [ex_device ''DX'' ''s9'' 5000]])
       [\<lparr>my_device_id = str ''DX'', last_seen_ts = Some (Num 900)\<rparr>] (ex_device ''DX'' ''s9'' 5000)"
  using cleanMemberState_skips_write
    [of "ex_group_call Entered [ex_own_event [ex_device ''DX'' ''s9'' 5000]]" 1000
        "[\<lparr>my_device_id = str ''DX'', last_seen_ts = Some (Num 900)\<rparr>]" None]
  by (simp add: cleanMemberState_def cleanDevices_def keepDevice_def myDeviceMap_def
        updateDevices_def getMemberStateEvent_def ex_defs json_defs)

text \<open>
  The claim as the spec states it fails in both directions. A stored device \<open>DX\<close> that the
  identity service knows, but without a \<open>last_seen_ts\<close>, is removed and the event is
  written, although no stored device is unknown to the identity service. And a stored
  device \<open>DY\<close> that has expired and that the identity service does not know is never seen by
  the filter, so nothing is written, although filtering the stored list would remove it.
\<close>

theorem cleanMemberState_skips_write_counterexample:
  "cleanMemberState (ex_group_call Entered [ex_own_event [ex_device ''DX'' ''s9'' 5000]]) 1000
     [\<lparr>my_device_id = str ''DX'', last_seen_ts = None\<rparr>]
   = Inr (Some
       \<lparr>write_content = JObject [(''m.calls'', JArray
          [JObject [(''m.call_id'', JString (str ''H'')),
                    (''m.devices'', JArray [ex_device ''DA'' ''s1'' 7000])]])],
        write_stateKey = str ''@a:h'', write_keepAlive = False\<rparr>)
   \<and> map_of (myDeviceMap [\<lparr>my_device_id = str ''DX'', last_seen_ts = None\<rparr>]) (str ''DX'')
       = Some \<lparr>my_device_id = str ''DX'', last_seen_ts = None\<rparr>
   \<and> cleanMemberState (ex_group_call Entered [ex_own_event [ex_device ''DY'' ''s8'' 500]]) 1000
       [\<lparr>my_device_id = str ''DA'', last_seen_ts = Some (Num 900)\<rparr>]
     = Inr None
   \<and> map_of (myDeviceMap [\<lparr>my_device_id = str ''DA'', last_seen_ts = Some (Num 900)\<rparr>]) (str ''DY'')
       = None"
  by (simp add: cleanMemberState_def cleanDevices_def keepDevice_def myDeviceMap_def
        updateDevices_def getMemberStateEvent_def ex_defs json_defs)

section \<open>Local media: properties\<close>

text \<open>
  C10. While there is no local call feed (before \<open>initLocalCallFeed\<close> has succeeded, or
  after \<open>leave\<close>), \<open>isMicrophoneMuted()\<close> and \<open>isLocalVideoMuted()\<close> both return true.
\<close>

theorem muted_without_local_feed:
  "localCallFeed s = None \<Longrightarrow> isMicrophoneMuted s \<and> isLocalVideoMuted s"
  by (simp add: isMicrophoneMuted_def isLocalVideoMuted_def)

theorem muted_without_local_feed_witness:
  "localCallFeed (ex_group_call LocalCallFeedUninitialized []) = None
   \<and> isMicrophoneMuted (ex_group_call LocalCallFeedUninitialized [])
   \<and> isLocalVideoMuted (ex_group_call LocalCallFeedUninitialized [])"
  using muted_without_local_feed [of "ex_group_call LocalCallFeedUninitialized []"]
  by (simp add: ex_group_call_def)

text \<open>
  What holds of the two setters. An unmute request with no input device returns false and
  changes nothing: the state, the feeds of the calls and the effects are as before.
\<close>

lemma setMicrophoneMuted_unmute_rejected:
  "\<not> hasAudioDevice \<Longrightarrow> setMicrophoneMuted hasAudioDevice False s = Inr (False, s)"
  by (simp add: setMicrophoneMuted_def)

lemma setLocalVideoMuted_unmute_rejected:
  "\<not> hasVideoDevice \<Longrightarrow> setLocalVideoMuted hasVideoDevice False s = Inr (False, s)"
  by (simp add: setLocalVideoMuted_def)

text \<open>A request to mute the video never asks for a device and returns true.\<close>

lemma setLocalVideoMuted_mute:
  "\<exists>s'. setLocalVideoMuted hasVideoDevice True s = Inr (True, s')"
  by (simp add: setLocalVideoMuted_def Let_def)

text \<open>
  A request to mute the microphone never asks for a device either, and returns true when
  every call of the graph has a local user-media feed.
\<close>

lemma eff_fields [simp]:
  "calls (eff e s) = calls s" "callObj (eff e s) = callObj s"
  "localCallFeed (eff e s) = localCallFeed s" "feedObj (eff e s) = feedObj s"
  "retryCallCounts (eff e s) = retryCallCounts s" "participants (eff e s) = participants s"
  "client (eff e s) = client s" "callHandlers (eff e s) = callHandlers s"
  "userMediaFeeds (eff e s) = userMediaFeeds s" "screenshareFeeds (eff e s) = screenshareFeeds s"
  "activeSpeaker (eff e s) = activeSpeaker s" "isPtt (eff e s) = isPtt s"
  "room (eff e s) = room s"
  by (simp_all add: eff_def)

lemma forEachCall_cong: "calls s' = calls s \<Longrightarrow> forEachCall s' = forEachCall s"
  by (simp add: forEachCall_def)

lemma setAudioVideoMuted_fields [simp]:
  "calls (setAudioVideoMuted f a v s) = calls s"
  "callObj (setAudioVideoMuted f a v s) = callObj s"
  "localCallFeed (setAudioVideoMuted f a v s) = localCallFeed s"
  by (simp_all add: setAudioVideoMuted_def)

lemma fold_eff_fields [simp]:
  "calls (fold (\<lambda>c. eff (g c)) cs s) = calls s"
  "callObj (fold (\<lambda>c. eff (g c)) cs s) = callObj s"
  "localCallFeed (fold (\<lambda>c. eff (g c)) cs s) = localCallFeed s"
  by (induction cs arbitrary: s) simp_all

lemma sendUpdates_fields [simp]:
  "calls (sendUpdates s) = calls s" "callObj (sendUpdates s) = callObj s"
  "localCallFeed (sendUpdates s) = localCallFeed s"
  by (simp_all add: sendUpdates_def)

lemma muteCallFeeds_fold_fields:
  "calls (fold (\<lambda>c t. case localUsermediaFeed (callObj t c) of
                    None \<Rightarrow> t
                  | Some f \<Rightarrow> setAudioVideoMuted f (Some muted) None t) cs s) = calls s
   \<and> callObj (fold (\<lambda>c t. case localUsermediaFeed (callObj t c) of
                    None \<Rightarrow> t
                  | Some f \<Rightarrow> setAudioVideoMuted f (Some muted) None t) cs s) = callObj s
   \<and> localCallFeed (fold (\<lambda>c t. case localUsermediaFeed (callObj t c) of
                    None \<Rightarrow> t
                  | Some f \<Rightarrow> setAudioVideoMuted f (Some muted) None t) cs s) = localCallFeed s"
  by (induction cs arbitrary: s) (auto split: option.splits)

lemma muteCallFeeds_fields [simp]:
  "calls (muteCallFeeds muted s) = calls s" "callObj (muteCallFeeds muted s) = callObj s"
  "localCallFeed (muteCallFeeds muted s) = localCallFeed s"
  using muteCallFeeds_fold_fields[of muted "forEachCall s" s]
  by (simp_all add: muteCallFeeds_def)

lemma enableCallTracks_succeeds:
  "\<forall>c\<in>set cs. localUsermediaFeed (callObj s c) \<noteq> None \<Longrightarrow>
     \<exists>s'. enableCallTracks enabled cs s = Inr s'"
  by (induction cs arbitrary: s) (auto split: option.splits)

lemma setMicrophoneMuted_mute:
  assumes "\<forall>c\<in>set (forEachCall s). localUsermediaFeed (callObj s c) \<noteq> None"
  shows "\<exists>s'. setMicrophoneMuted hasAudioDevice True s = Inr (True, s')"
proof -
  let ?s1 = "(if isPtt s
                  then (if \<not> True \<and> isMicrophoneMuted s
                        then eff SetTransmitTimer (s\<lparr>transmitTimer := True\<rparr>)
                        else if True \<and> \<not> isMicrophoneMuted s
                        then (if transmitTimer s then eff ClearTransmitTimer s else s)
                               \<lparr>transmitTimer := False\<rparr>
                        else s)
                  else s)"
  have s1: "calls ?s1 = calls s" "callObj ?s1 = callObj s"
    by simp_all
  let ?s3 = "(if \<not> True \<and> isPtt s then sendUpdates (muteCallFeeds True ?s1)
              else muteCallFeeds True ?s1)"
  let ?s4 = "(case localCallFeed ?s3 of
                    Some f \<Rightarrow> eff (SetTracksEnabled f AudioTracks (\<not> True))
                               (setAudioVideoMuted f (Some True) None ?s3)
                  | None \<Rightarrow> ?s3\<lparr>initWithAudioMuted := True\<rparr>)"
  have s4: "calls ?s4 = calls s" "callObj ?s4 = callObj s"
    using s1 by (simp_all split: option.splits)
  have "forEachCall ?s4 = forEachCall s"
    by (rule forEachCall_cong) (rule s4)
  with assms s4 have "\<forall>c\<in>set (forEachCall ?s4). localUsermediaFeed (callObj ?s4 c) \<noteq> None"
    by simp
  from enableCallTracks_succeeds[OF this, of "\<not> True"] obtain s5 where
    "enableCallTracks (\<not> True) (forEachCall ?s4) ?s4 = Inr s5" by blast
  then show ?thesis
    unfolding setMicrophoneMuted_def Let_def by simp
qed

text \<open>
  C8. A request to mute the microphone is meant always to go through, but line 568 reads
  \<open>call.localUsermediaFeed!.stream\<close> on every call of the graph, where line 541 guards the
  same feed with \<open>?.\<close>. Right after a placement pass the new outbound call is in the graph
  and has no local user-media feed yet; there \<open>setMicrophoneMuted(true)\<close> throws a
  \<open>TypeError\<close> instead of returning true.
\<close>

theorem setMicrophoneMuted_mute_throws:
  "placeOutgoingCalls (\<lambda>uid did sid. Some 1) ex_joining = Inr ex_placed
   \<and> forEachCall ex_placed = [1]
   \<and> localUsermediaFeed (callObj ex_placed 1) = None
   \<and> setMicrophoneMuted True True ex_placed = Inl TypeError"
  by (simp add: setMicrophoneMuted_def muteCallFeeds_def sendUpdates_def forEachCall_def
        isMicrophoneMuted_def isLocalVideoMuted_def setAudioVideoMuted_def placeOutgoingCalls_def
        wantsOutgoingCall_def initCall_def onCallFeedsChanged_def syncUserMediaFeed_def
        syncScreenshareFeed_def getCallUserId_def getUserMediaFeed_def getScreenshareFeed_def
        feedHasKey_def getLocalFeeds_def eff_def ex_defs str_def Let_def)

section \<open>The active speaker: properties\<close>

text \<open>
  C5. The score of a feed is meant to be the mean of its samples with every sample clamped
  below at the threshold, but the \<open>reduce\<close> has no initial value, so the first sample
  enters the sum as it is. With the threshold at \<open>-60\<close>, feed 1 has the samples
  \<open>-100, -50, ..., -50\<close> and feed 2 has eight samples of \<open>-52\<close>: the clamped means are
  \<open>-51.25\<close> and \<open>-52\<close>, so feed 1 has the highest mean, yet the loop sums the samples of
  feed 1 to \<open>-450\<close>, scores it at \<open>-56.25\<close> and publishes feed 2.
\<close>

theorem onActiveSpeakerLoop_first_sample_unclamped:
  "onActiveSpeakerLoop (Num (- 60)) ex_speakers
     = Inr (eff (Emit_ActiveSpeakerChanged (Some 2)) (ex_speakers\<lparr>activeSpeaker := Some 2\<rparr>))
   \<and> spec_clampedMean (Num (- 60)) (speakingVolumeSamples (feedObj ex_speakers 1)) = Num (- 205 / 4)
   \<and> spec_clampedMean (Num (- 60)) (speakingVolumeSamples (feedObj ex_speakers 2)) = Num (- 52)
   \<and> reduceSamples (Num (- 60)) (speakingVolumeSamples (feedObj ex_speakers 1)) = Inr (Num (- 450))"
  by (simp add: onActiveSpeakerLoop_def reduceSamples_def spec_clampedMean_def js_gt_def ex_defs
        numeral_eq_Suc)

section \<open>The call graph and the handler table: properties\<close>

lemmas reconciler_defs = onIncomingCall_def onCallHangup_def initCall_def disposeCall_def
  onCallFeedsChanged_def syncUserMediaFeed_def syncScreenshareFeed_def getCallUserId_def
  getUserMediaFeed_def getScreenshareFeed_def feedHasKey_def getLocalFeeds_def eff_def

text \<open>
  C1. The call graph and the handler table are meant to be keyed alike after every pass,
  \<open>disposeCall\<close> deleting the handlers under the key \<open>initCall\<close> stored them under. But
  line 937 deletes from the device map the key \<open>opponentMemberId\<close>, not
  \<open>opponentDeviceId\<close>. Admitting the call of device \<open>DB\<close> of \<open>@b:h\<close> leaves both maps
  keyed alike; when that call hangs up, the call graph becomes empty and the handler table
  still holds the handlers of \<open>(@b:h, DB)\<close>.
\<close>

theorem disposeCall_keeps_handlers:
  "onIncomingCall 1 ex_entered = Inr ex_answered
   \<and> map_sum id (\<lambda>s. (calls s, callHandlers s)) (onCallHangup 1 ex_hung_up)
       = Inr ([], [(str ''@b:h'', [(str ''DB'', \<lparr>handlersOf = 1\<rparr>)])])"
  by (simp add: reconciler_defs ex_defs str_def Let_def)

section \<open>Retries: properties\<close>

lemma retryCount_setRetryCount:
  "retryCount (setRetryCount counts m d n) m' d'
     = (if m' = m \<and> d' = d then n else retryCount counts m' d')"
  by (auto simp: retryCount_def setRetryCount_def update_conv' split: option.splits)

lemma retryDevices_needsRetry:
  "retryDevices s member pm (counts, True) = Inr (counts', nr') \<Longrightarrow> nr'"
proof (induction pm arbitrary: counts)
  case Nil
  then show ?case by simp
next
  case (Cons dp pm)
  obtain d0 p0 where dp: "dp = (d0, p0)" by (cases dp)
  from Cons.prems obtain c1 where "retryDevices s member pm (c1, True) = Inr (counts', nr')"
    by (auto simp: dp Let_def split: if_splits member_key.splits)
  then show ?case by (rule Cons.IH)
qed

text \<open>A slot of the view for which the retry loop counts a retry, while its count is below 3.\<close>

lemma retryDevices_counts:
  "retryDevices s member pm (counts, nr) = Inr (counts', nr') \<Longrightarrow>
     retryCount counts m d \<le> retryCount counts' m d
   \<and> retryCount counts' m d \<le> max (retryCount counts m d) 3
   \<and> (retryCount counts' m d \<noteq> retryCount counts m d \<longrightarrow>
        m = member
      \<and> nr'
      \<and> (\<exists>mem p. member = MObj mem \<and> (d, p) \<in> set pm
            \<and> wantsOutgoingCall (client s) (userId mem) d
            \<and> sessionDiffers s (slotCall s member d) p))"
proof (induction pm arbitrary: counts nr)
  case Nil
  then show ?case by simp
next
  case (Cons dp pm)
  obtain d0 p0 where dp: "dp = (d0, p0)" by (cases dp)
  let ?inc = "sessionDiffers s (slotCall s member d0) p0
              \<and> (\<exists>mem. member = MObj mem \<and> wantsOutgoingCall (client s) (userId mem) d0)
              \<and> retryCount counts member d0 < 3"
  show ?case
  proof (cases ?inc)
    case True
    then obtain mem where mem: "member = MObj mem" by auto
    let ?c1 = "setRetryCount counts member d0 (retryCount counts member d0 + 1)"
    from Cons.prems True mem have
      rest: "retryDevices s member pm (?c1, True) = Inr (counts', nr')"
      by (simp add: dp Let_def)
    note IH = Cons.IH[OF rest]
    have c1: "retryCount ?c1 m d
                = (if m = member \<and> d = d0 then retryCount counts member d0 + 1
                   else retryCount counts m d)"
      by (simp add: retryCount_setRetryCount)
    have nr': "nr'"
      using retryDevices_needsRetry[OF rest] .
    show ?thesis
    proof (cases "m = member \<and> d = d0")
      case False
      with IH c1 nr' show ?thesis by (auto simp: dp)
    next
      case md: True
      with c1 have "retryCount ?c1 m d = retryCount counts m d + 1" by simp
      with IH True md mem nr' show ?thesis
        by (auto simp: dp)
    qed
  next
    case False
    with Cons.prems have
      rest: "retryDevices s member pm (counts, nr) = Inr (counts', nr')"
      by (auto simp: dp Let_def split: member_key.splits if_splits)
    from Cons.IH[OF rest] show ?thesis by (auto simp: dp)
  qed
qed

lemma retryMembers_needsRetry:
  "retryMembers s view (counts, True) = Inr (counts', nr') \<Longrightarrow> nr'"
proof (induction view arbitrary: counts)
  case Nil
  then show ?case by simp
next
  case (Cons mp view)
  obtain member pm where mp: "mp = (member, pm)" by (cases mp)
  from Cons.prems obtain c1 n1 where
    dev: "retryDevices s member pm (counts, True) = Inr (c1, n1)" and
    rest: "retryMembers s view (c1, n1) = Inr (counts', nr')"
    by (auto simp: mp split: sum.splits)
  from retryDevices_needsRetry[OF dev] rest show ?case
    by (auto intro: Cons.IH)
qed

lemma retryMembers_counts:
  "retryMembers s view (counts, nr) = Inr (counts', nr') \<Longrightarrow>
     retryCount counts m d \<le> retryCount counts' m d
   \<and> retryCount counts' m d \<le> max (retryCount counts m d) 3
   \<and> (retryCount counts' m d \<noteq> retryCount counts m d \<longrightarrow>
        nr'
      \<and> (\<exists>mem pm p. m = MObj mem \<and> (m, pm) \<in> set view \<and> (d, p) \<in> set pm
            \<and> wantsOutgoingCall (client s) (userId mem) d
            \<and> sessionDiffers s (slotCall s m d) p))"
proof (induction view arbitrary: counts nr)
  case Nil
  then show ?case by simp
next
  case (Cons mp view)
  obtain member pm where mp: "mp = (member, pm)" by (cases mp)
  from Cons.prems obtain c1 n1 where
    dev: "retryDevices s member pm (counts, nr) = Inr (c1, n1)" and
    rest: "retryMembers s view (c1, n1) = Inr (counts', nr')"
    by (auto simp: mp split: sum.splits)
  note D = retryDevices_counts[OF dev, of m d]
  note IH = Cons.IH[OF rest]
  have le: "retryCount counts m d \<le> retryCount counts' m d"
    using D IH by linarith
  have ub: "retryCount counts' m d \<le> max (retryCount counts m d) 3"
    using D IH by linarith
  have ch: "nr' \<and> (\<exists>mem pm p. m = MObj mem \<and> (m, pm) \<in> set (mp # view) \<and> (d, p) \<in> set pm
            \<and> wantsOutgoingCall (client s) (userId mem) d
            \<and> sessionDiffers s (slotCall s m d) p)"
    if "retryCount counts' m d \<noteq> retryCount counts m d"
  proof (cases "retryCount c1 m d \<noteq> retryCount counts m d")
    case True
    with D have "n1" by simp
    with rest have "retryMembers s view (c1, True) = Inr (counts', nr')" by simp
    then have "nr'" by (rule retryMembers_needsRetry)
    with True D show ?thesis by (auto simp: mp)
  next
    case False
    with that have "retryCount counts' m d \<noteq> retryCount c1 m d" by simp
    with IH show ?thesis by (auto simp: mp)
  qed
  from le ub ch show ?case by blast
qed

text \<open>A slot that qualifies is counted once more, whatever else the pass counts.\<close>

lemma retryDevices_increments:
  "retryDevices s member pm (counts, nr) = Inr (counts', nr') \<Longrightarrow>
   (d, p) \<in> set pm \<Longrightarrow> member = MObj mem \<Longrightarrow>
   wantsOutgoingCall (client s) (userId mem) d \<Longrightarrow>
   sessionDiffers s (slotCall s member d) p \<Longrightarrow>
   retryCount counts member d < 3 \<Longrightarrow>
     retryCount counts member d < retryCount counts' member d \<and> nr'"
proof (induction pm arbitrary: counts nr)
  case Nil
  then show ?case by simp
next
  case (Cons dp pm)
  obtain d0 p0 where dp: "dp = (d0, p0)" by (cases dp)
  let ?inc = "sessionDiffers s (slotCall s member d0) p0
              \<and> wantsOutgoingCall (client s) (userId mem) d0
              \<and> retryCount counts member d0 < 3"
  show ?case
  proof (cases ?inc)
    case True
    let ?c1 = "setRetryCount counts member d0 (retryCount counts member d0 + 1)"
    from Cons.prems True have
      rest: "retryDevices s member pm (?c1, True) = Inr (counts', nr')"
      by (simp add: dp Let_def)
    have mono: "retryCount ?c1 member d \<le> retryCount counts' member d"
      using retryDevices_counts[OF rest, of member d] by simp
    have nr': "nr'"
      using retryDevices_needsRetry[OF rest] .
    show ?thesis
    proof (cases "d = d0")
      case True
      then have "retryCount ?c1 member d = retryCount counts member d + 1"
        by (simp add: retryCount_setRetryCount)
      with mono nr' show ?thesis by simp
    next
      case False
      then have same: "retryCount ?c1 member d = retryCount counts member d"
        by (simp add: retryCount_setRetryCount)
      from False Cons.prems(2) have mem': "(d, p) \<in> set pm" by (simp add: dp)
      from Cons.IH[OF rest mem' Cons.prems(3,4,5)] same Cons.prems(6) show ?thesis
        by simp
    qed
  next
    case False
    with Cons.prems have
      rest: "retryDevices s member pm (counts, nr) = Inr (counts', nr')"
      by (auto simp: dp Let_def split: if_splits)
    from False Cons.prems have "(d, p) \<noteq> (d0, p0)" by auto
    with Cons.prems(2) have mem': "(d, p) \<in> set pm" by (auto simp: dp)
    from Cons.IH[OF rest mem' Cons.prems(3,4,5,6)] show ?thesis .
  qed
qed

lemma retryMembers_increments:
  "retryMembers s view (counts, nr) = Inr (counts', nr') \<Longrightarrow>
   (m, pm) \<in> set view \<Longrightarrow> (d, p) \<in> set pm \<Longrightarrow> m = MObj mem \<Longrightarrow>
   wantsOutgoingCall (client s) (userId mem) d \<Longrightarrow>
   sessionDiffers s (slotCall s m d) p \<Longrightarrow>
   retryCount counts m d < 3 \<Longrightarrow>
     retryCount counts m d < retryCount counts' m d \<and> nr'"
proof (induction view arbitrary: counts nr)
  case Nil
  then show ?case by simp
next
  case (Cons mp view)
  obtain member0 pm0 where mp: "mp = (member0, pm0)" by (cases mp)
  from Cons.prems(1) obtain c1 n1 where
    dev: "retryDevices s member0 pm0 (counts, nr) = Inr (c1, n1)" and
    rest: "retryMembers s view (c1, n1) = Inr (counts', nr')"
    by (auto simp: mp split: sum.splits)
  note D = retryDevices_counts[OF dev, of m d]
  note R = retryMembers_counts[OF rest, of m d]
  show ?case
  proof (cases "(m, pm) = (member0, pm0)")
    case True
    with Cons.prems dev have inc: "retryCount counts m d < retryCount c1 m d \<and> n1"
      by (auto dest: retryDevices_increments)
    with rest have "retryMembers s view (c1, True) = Inr (counts', nr')" by simp
    then have "nr'" by (rule retryMembers_needsRetry)
    with inc show ?thesis using R by auto
  next
    case False
    with Cons.prems(2) have inview: "(m, pm) \<in> set view" by (auto simp: mp)
    show ?thesis
    proof (cases "retryCount c1 m d < 3")
      case True
      from Cons.IH[OF rest inview Cons.prems(3,4,5,6) True] D show ?thesis by auto
    next
      case False
      with Cons.prems(7) have ne: "retryCount c1 m d \<noteq> retryCount counts m d" by simp
      with D have n1 by simp
      with rest have "retryMembers s view (c1, True) = Inr (counts', nr')" by simp
      then have "nr'" by (rule retryMembers_needsRetry)
      with False Cons.prems(7) R show ?thesis by auto
    qed
  qed
qed

text \<open>When no slot qualifies, the scan changes nothing and asks for no placement pass.\<close>

lemma retryDevices_noop:
  "(\<forall>(d, p)\<in>set pm. sessionDiffers s (slotCall s member d) p \<longrightarrow>
      (\<exists>mem. member = MObj mem
         \<and> (wantsOutgoingCall (client s) (userId mem) d \<longrightarrow> 3 \<le> retryCount counts member d))) \<Longrightarrow>
   retryDevices s member pm (counts, nr) = Inr (counts, nr)"
  by (induction pm) (auto simp: Let_def)

lemma retryMembers_noop:
  "(\<forall>(member, pm)\<in>set view. \<forall>(d, p)\<in>set pm. sessionDiffers s (slotCall s member d) p \<longrightarrow>
      (\<exists>mem. member = MObj mem
         \<and> (wantsOutgoingCall (client s) (userId mem) d \<longrightarrow> 3 \<le> retryCount counts member d))) \<Longrightarrow>
   retryMembers s view (counts, nr) = Inr (counts, nr)"
proof (induction view)
  case Nil
  then show ?case by simp
next
  case (Cons mp view)
  obtain member pm where mp: "mp = (member, pm)" by (cases mp)
  from Cons.prems have "retryDevices s member pm (counts, nr) = Inr (counts, nr)"
    by (intro retryDevices_noop) (auto simp: mp)
  moreover from Cons.prems have "retryMembers s view (counts, nr) = Inr (counts, nr)"
    by (intro Cons.IH) auto
  ultimately show ?case by (simp add: mp)
qed

text \<open>A placement pass leaves the retry counts alone.\<close>

lemma feed_registry_retryCallCounts:
  "retryCallCounts (addUserMediaFeed f s) = retryCallCounts s"
  "retryCallCounts (addScreenshareFeed f s) = retryCallCounts s"
  "replaceUserMediaFeed f g s = Inr s' \<Longrightarrow> retryCallCounts s' = retryCallCounts s"
  "removeUserMediaFeed f s = Inr s' \<Longrightarrow> retryCallCounts s' = retryCallCounts s"
  "replaceScreenshareFeed f g s = Inr s' \<Longrightarrow> retryCallCounts s' = retryCallCounts s"
  "removeScreenshareFeed f s = Inr s' \<Longrightarrow> retryCallCounts s' = retryCallCounts s"
  by (auto simp: addUserMediaFeed_def addScreenshareFeed_def replaceUserMediaFeed_def
        removeUserMediaFeed_def replaceScreenshareFeed_def removeScreenshareFeed_def Let_def
      split: option.splits if_splits)

lemma sync_retryCallCounts:
  "syncUserMediaFeed a b s = Inr s' \<Longrightarrow> retryCallCounts s' = retryCallCounts s"
  "syncScreenshareFeed a b s = Inr s' \<Longrightarrow> retryCallCounts s' = retryCallCounts s"
  by (auto simp: syncUserMediaFeed_def syncScreenshareFeed_def feed_registry_retryCallCounts
      split: option.splits if_splits)

lemma onCallFeedsChanged_retryCallCounts:
  "onCallFeedsChanged c s = Inr s' \<Longrightarrow> retryCallCounts s' = retryCallCounts s"
  by (auto simp: onCallFeedsChanged_def Let_def sync_retryCallCounts
      split: option.splits sum.splits)

lemma initCall_retryCallCounts:
  "initCall c s = Inr s' \<Longrightarrow> retryCallCounts s' = retryCallCounts s"
  by (auto simp: initCall_def Let_def split: option.splits
      dest!: onCallFeedsChanged_retryCallCounts)

lemma disposeCall_retryCallCounts:
  "disposeCall c reason s = Inr s' \<Longrightarrow> retryCallCounts s' = retryCallCounts s"
  by (auto simp: disposeCall_def Let_def split: option.splits sum.splits if_splits
      dest!: feed_registry_retryCallCounts(4) feed_registry_retryCallCounts(6))

lemma placeDevices_retryCallCounts:
  "placeDevices create member pm (callMap, changed, s) = Inr (callMap', changed', s') \<Longrightarrow>
     retryCallCounts s' = retryCallCounts s"
proof (induction pm arbitrary: callMap changed s)
  case Nil
  then show ?case by simp
next
  case (Cons dp pm)
  obtain d0 p0 where dp: "dp = (d0, p0)" by (cases dp)
  from Cons.prems obtain cm1 ch1 s1 where
    rest: "placeDevices create member pm (cm1, ch1, s1) = Inr (callMap', changed', s')"
    and s1: "retryCallCounts s1 = retryCallCounts s"
    by (auto simp: dp Let_def
        split: if_splits member_key.splits option.splits sum.splits
        dest!: disposeCall_retryCallCounts initCall_retryCallCounts)
  from Cons.IH[OF rest] s1 show ?case by simp
qed

lemma placeMembers_retryCallCounts:
  "placeMembers create view (changed, s) = Inr (changed', s') \<Longrightarrow>
     retryCallCounts s' = retryCallCounts s"
proof (induction view arbitrary: changed s)
  case Nil
  then show ?case by simp
next
  case (Cons mp view)
  obtain member pm where mp: "mp = (member, pm)" by (cases mp)
  from Cons.prems obtain cm1 ch1 s1 where
    dev: "placeDevices create member pm
            (case map_of (calls s) member of None \<Rightarrow> [] | Some m \<Rightarrow> m, changed, s)
          = Inr (cm1, ch1, s1)"
    and rest: "placeMembers create view
            (ch1, s1\<lparr>calls := (if cm1 \<noteq> [] then AList.update member cm1 (calls s1)
                               else AList.delete member (calls s1))\<rparr>) = Inr (changed', s')"
    by (auto simp: mp Let_def split: sum.splits)
  from Cons.IH[OF rest] placeDevices_retryCallCounts[OF dev] show ?case by simp
qed

lemma placeOutgoingCalls_retryCallCounts:
  "placeOutgoingCalls create s = Inr s' \<Longrightarrow> retryCallCounts s' = retryCallCounts s"
  by (auto simp: placeOutgoingCalls_def split: sum.splits if_splits
      dest!: placeMembers_retryCallCounts)

text \<open>A call that reaches \<open>Connected\<close> clears the count of its slot and no other.\<close>

lemma delete_Nil_lookup:
  "AList.delete k al = [] \<Longrightarrow> k' \<noteq> k \<Longrightarrow> map_of al k' = None"
proof -
  assume d: "AList.delete k al = []" and ne: "k' \<noteq> k"
  have "map_of (AList.delete k al) k' = map_of al k'"
    using ne by simp
  with d show ?thesis by simp
qed

lemma onCallStateChanged_Connected:
  assumes "onCallStateChanged c Connected s = Inr s'"
  shows "retryCount (retryCallCounts s') m d
           = (if m = ofOpponentMember (getOpponentMember (callObj s c))
                 \<and> d = getOpponentDeviceId (callObj s c)
              then 0 else retryCount (retryCallCounts s) m d)"
proof -
  let ?opp = "ofOpponentMember (getOpponentMember (callObj s c))"
  let ?dev = "getOpponentDeviceId (callObj s c)"
  show ?thesis
  proof (cases "map_of (retryCallCounts s) ?opp")
    case None
    with assms have "retryCallCounts s' = retryCallCounts s"
      by (auto simp: onCallStateChanged_def Let_def split: option.splits)
    with None show ?thesis by (auto simp: retryCount_def)
  next
    case (Some rm)
    show ?thesis
    proof (cases "AList.delete ?dev rm = []")
      case True
      with Some assms have "retryCallCounts s' = AList.delete ?opp (retryCallCounts s)"
        by (auto simp: onCallStateChanged_def Let_def split: option.splits)
      with Some True show ?thesis
        by (auto simp: retryCount_def delete_conv' delete_Nil_lookup split: option.splits)
    next
      case False
      with Some assms have
        "retryCallCounts s' = AList.update ?opp (AList.delete ?dev rm) (retryCallCounts s)"
        by (auto simp: onCallStateChanged_def Let_def split: option.splits)
      with Some show ?thesis
        by (auto simp: retryCount_def update_conv' delete_conv' split: option.splits)
    qed
  qed
qed

text \<open>With keys that are distinct, as those of a \<open>Map\<close> are, a scan counts a slot exactly once.\<close>

lemma retryDevices_exact:
  "retryDevices s member pm (counts, nr) = Inr (counts', nr') \<Longrightarrow> distinct (map fst pm) \<Longrightarrow>
     retryCount counts' m d
       = retryCount counts m d
         + (if m = member
               \<and> (\<exists>mem p. member = MObj mem \<and> (d, p) \<in> set pm
                     \<and> wantsOutgoingCall (client s) (userId mem) d
                     \<and> sessionDiffers s (slotCall s member d) p
                     \<and> retryCount counts member d < 3)
            then 1 else 0)"
proof (induction pm arbitrary: counts nr)
  case Nil
  then show ?case by simp
next
  case (Cons dp pm)
  obtain d0 p0 where dp: "dp = (d0, p0)" by (cases dp)
  from Cons.prems(2) have fresh: "\<And>p. (d0, p) \<notin> set pm" and dist: "distinct (map fst pm)"
    by (auto simp: dp rev_image_eqI)
  let ?inc = "sessionDiffers s (slotCall s member d0) p0
              \<and> (\<exists>mem. member = MObj mem \<and> wantsOutgoingCall (client s) (userId mem) d0)
              \<and> retryCount counts member d0 < 3"
  show ?case
  proof (cases ?inc)
    case True
    then obtain mem where mem: "member = MObj mem" by auto
    let ?c1 = "setRetryCount counts member d0 (retryCount counts member d0 + 1)"
    from Cons.prems True mem have
      rest: "retryDevices s member pm (?c1, True) = Inr (counts', nr')"
      by (simp add: dp Let_def)
    note IH = Cons.IH[OF rest dist, unfolded retryCount_setRetryCount]
    show ?thesis
    proof (cases "m = member \<and> d = d0")
      case md: True
      with IH fresh have "retryCount counts' m d = retryCount counts m d + 1"
        by simp
      with md True mem show ?thesis
        by (auto simp: dp)
    next
      case False
      with IH show ?thesis
        by (auto simp: dp)
    qed
  next
    case False
    with Cons.prems have
      rest: "retryDevices s member pm (counts, nr) = Inr (counts', nr')"
      by (auto simp: dp Let_def split: member_key.splits if_splits)
    from Cons.IH[OF rest dist] False fresh show ?thesis
      by (auto simp: dp)
  qed
qed

lemma retryMembers_exact:
  "retryMembers s view (counts, nr) = Inr (counts', nr') \<Longrightarrow>
   distinct (map fst view) \<Longrightarrow> (\<forall>(member, pm)\<in>set view. distinct (map fst pm)) \<Longrightarrow>
     retryCount counts' m d
       = retryCount counts m d
         + (if \<exists>mem pm p. m = MObj mem \<and> (m, pm) \<in> set view \<and> (d, p) \<in> set pm
                   \<and> wantsOutgoingCall (client s) (userId mem) d
                   \<and> sessionDiffers s (slotCall s m d) p
                   \<and> retryCount counts m d < 3
            then 1 else 0)"
proof (induction view arbitrary: counts nr)
  case Nil
  then show ?case by simp
next
  case (Cons mp view)
  obtain member pm where mp: "mp = (member, pm)" by (cases mp)
  from Cons.prems(2) have fresh: "\<And>pm'. (member, pm') \<notin> set view" and dist: "distinct (map fst view)"
    by (auto simp: mp rev_image_eqI)
  from Cons.prems(3) have dpm: "distinct (map fst pm)"
    and inner: "\<forall>(member, pm)\<in>set view. distinct (map fst pm)"
    by (auto simp: mp)
  from Cons.prems(1) obtain c1 n1 where
    dev: "retryDevices s member pm (counts, nr) = Inr (c1, n1)" and
    rest: "retryMembers s view (c1, n1) = Inr (counts', nr')"
    by (auto simp: mp split: sum.splits)
  note D = retryDevices_exact[OF dev dpm, of m d]
  note IH = Cons.IH[OF rest dist inner]
  show ?case
  proof (cases "m = member")
    case True
    with IH fresh have "retryCount counts' m d = retryCount c1 m d"
      by auto
    with D True fresh show ?thesis
      by (auto simp: mp)
  next
    case False
    with D have "retryCount c1 m d = retryCount counts m d"
      by simp
    with IH False show ?thesis
      by (auto simp: mp)
  qed
qed

text \<open>A scan that returns has met no member key other than a member at a slot without a call
  of the advertised session.\<close>

lemma retryDevices_members:
  "retryDevices s member pm (counts, nr) = Inr (counts', nr') \<Longrightarrow> (d, p) \<in> set pm \<Longrightarrow>
   sessionDiffers s (slotCall s member d) p \<Longrightarrow> \<exists>mem. member = MObj mem"
proof (induction pm arbitrary: counts nr)
  case Nil
  then show ?case by simp
next
  case (Cons dp pm)
  obtain d0 p0 where dp: "dp = (d0, p0)" by (cases dp)
  show ?case
  proof (cases "(d, p) = (d0, p0)")
    case True
    with Cons.prems show ?thesis
      by (cases member) (auto simp: dp Let_def)
  next
    case False
    with Cons.prems(2) have inpm: "(d, p) \<in> set pm" by (auto simp: dp)
    from Cons.prems(1) obtain c1 n1 where
      "retryDevices s member pm (c1, n1) = Inr (counts', nr')"
      by (auto simp: dp Let_def split: if_splits member_key.splits)
    from Cons.IH[OF this inpm Cons.prems(3)] show ?thesis .
  qed
qed

lemma retryMembers_members:
  "retryMembers s view (counts, nr) = Inr (counts', nr') \<Longrightarrow>
   (member, pm) \<in> set view \<Longrightarrow> (d, p) \<in> set pm \<Longrightarrow>
   sessionDiffers s (slotCall s member d) p \<Longrightarrow> \<exists>mem. member = MObj mem"
proof (induction view arbitrary: counts nr)
  case Nil
  then show ?case by simp
next
  case (Cons mp view)
  obtain member0 pm0 where mp: "mp = (member0, pm0)" by (cases mp)
  from Cons.prems(1) obtain c1 n1 where
    dev: "retryDevices s member0 pm0 (counts, nr) = Inr (c1, n1)" and
    rest: "retryMembers s view (c1, n1) = Inr (counts', nr')"
    by (auto simp: mp split: sum.splits)
  show ?case
  proof (cases "(member, pm) = (member0, pm0)")
    case True
    with retryDevices_members[OF dev, of d p] Cons.prems show ?thesis
      by auto
  next
    case False
    with Cons.prems(2) have "(member, pm) \<in> set view" by (auto simp: mp)
    from Cons.IH[OF rest this Cons.prems(3,4)] show ?thesis .
  qed
qed

text \<open>The tick runs the placement pass iff some slot qualifies.\<close>

lemma onRetryCallLoop_pass:
  assumes run: "onRetryCallLoop create s = Inr s'"
  shows "((\<exists>m pm d p. (MObj m, pm) \<in> set (participants s) \<and> (d, p) \<in> set pm
               \<and> wantsOutgoingCall (client s) (userId m) d
               \<and> sessionDiffers s (slotCall s (MObj m) d) p
               \<and> retryCount (retryCallCounts s) (MObj m) d < 3)
           \<longrightarrow> placeOutgoingCalls create (s\<lparr>retryCallCounts := retryCallCounts s'\<rparr>) = Inr s')
       \<and> (\<not> (\<exists>m pm d p. (MObj m, pm) \<in> set (participants s) \<and> (d, p) \<in> set pm
               \<and> wantsOutgoingCall (client s) (userId m) d
               \<and> sessionDiffers s (slotCall s (MObj m) d) p
               \<and> retryCount (retryCallCounts s) (MObj m) d < 3)
           \<longrightarrow> s' = s)"
proof (intro conjI impI)
  from run obtain counts nr where
    scan: "retryMembers s (participants s) (retryCallCounts s, False) = Inr (counts, nr)"
    by (auto simp: onRetryCallLoop_def split: sum.splits)
  from run scan have counts: "retryCallCounts s' = counts"
    by (auto simp: onRetryCallLoop_def split: if_splits
        dest!: placeOutgoingCalls_retryCallCounts)
  {
    assume "\<exists>m pm d p. (MObj m, pm) \<in> set (participants s) \<and> (d, p) \<in> set pm
               \<and> wantsOutgoingCall (client s) (userId m) d
               \<and> sessionDiffers s (slotCall s (MObj m) d) p
               \<and> retryCount (retryCallCounts s) (MObj m) d < 3"
    then obtain m pm d p where q: "(MObj m, pm) \<in> set (participants s)" "(d, p) \<in> set pm"
       "wantsOutgoingCall (client s) (userId m) d"
       "sessionDiffers s (slotCall s (MObj m) d) p"
       "retryCount (retryCallCounts s) (MObj m) d < 3"
      by blast
    from retryMembers_increments[OF scan q(1,2) refl q(3,4,5)] have nr by simp
    with run scan have "placeOutgoingCalls create (s\<lparr>retryCallCounts := counts\<rparr>) = Inr s'"
      by (simp add: onRetryCallLoop_def)
    with counts show "placeOutgoingCalls create (s\<lparr>retryCallCounts := retryCallCounts s'\<rparr>) = Inr s'"
      by simp
  }
  assume none: "\<not> (\<exists>m pm d p. (MObj m, pm) \<in> set (participants s) \<and> (d, p) \<in> set pm
               \<and> wantsOutgoingCall (client s) (userId m) d
               \<and> sessionDiffers s (slotCall s (MObj m) d) p
               \<and> retryCount (retryCallCounts s) (MObj m) d < 3)"
  have "retryMembers s (participants s) (retryCallCounts s, False)
               = Inr (retryCallCounts s, False)"
  proof (rule retryMembers_noop, clarify)
    fix member pm d p
    assume a: "(member, pm) \<in> set (participants s)" "(d, p) \<in> set pm"
        "sessionDiffers s (slotCall s member d) p"
    from retryMembers_members[OF scan a] obtain mem where mem: "member = MObj mem" ..
    with none a show "\<exists>mem. member = MObj mem
         \<and> (wantsOutgoingCall (client s) (userId mem) d
               \<longrightarrow> 3 \<le> retryCount (retryCallCounts s) member d)"
      by (auto simp: not_less)
  qed
  with run show "s' = s"
    by (simp add: onRetryCallLoop_def)
qed

text \<open>What a placement pass leaves alone: the call objects, the client, and (outside the
  members it walks) the calls.\<close>

lemma feed_registry_frame:
  "calls (addUserMediaFeed f s) = calls s \<and> callObj (addUserMediaFeed f s) = callObj s
     \<and> client (addUserMediaFeed f s) = client s"
  "calls (addScreenshareFeed f s) = calls s \<and> callObj (addScreenshareFeed f s) = callObj s
     \<and> client (addScreenshareFeed f s) = client s"
  "replaceUserMediaFeed f g s = Inr s' \<Longrightarrow>
     calls s' = calls s \<and> callObj s' = callObj s \<and> client s' = client s"
  "removeUserMediaFeed f s = Inr s' \<Longrightarrow>
     calls s' = calls s \<and> callObj s' = callObj s \<and> client s' = client s"
  "replaceScreenshareFeed f g s = Inr s' \<Longrightarrow>
     calls s' = calls s \<and> callObj s' = callObj s \<and> client s' = client s"
  "removeScreenshareFeed f s = Inr s' \<Longrightarrow>
     calls s' = calls s \<and> callObj s' = callObj s \<and> client s' = client s"
  by (auto simp: addUserMediaFeed_def addScreenshareFeed_def replaceUserMediaFeed_def
        removeUserMediaFeed_def replaceScreenshareFeed_def removeScreenshareFeed_def Let_def
      split: option.splits if_splits)

lemma sync_frame:
  "syncUserMediaFeed a b s = Inr s' \<Longrightarrow>
     calls s' = calls s \<and> callObj s' = callObj s \<and> client s' = client s"
  "syncScreenshareFeed a b s = Inr s' \<Longrightarrow>
     calls s' = calls s \<and> callObj s' = callObj s \<and> client s' = client s"
  by (auto simp: syncUserMediaFeed_def syncScreenshareFeed_def feed_registry_frame
      split: option.splits if_splits)

lemma onCallFeedsChanged_frame:
  "onCallFeedsChanged c s = Inr s' \<Longrightarrow>
     calls s' = calls s \<and> callObj s' = callObj s \<and> client s' = client s"
  by (auto simp: onCallFeedsChanged_def Let_def sync_frame
      split: option.splits sum.splits)

lemma initCall_frame:
  "initCall c s = Inr s' \<Longrightarrow>
     calls s' = calls s \<and> callObj s' = callObj s \<and> client s' = client s"
  by (auto simp: initCall_def Let_def split: option.splits
      dest!: onCallFeedsChanged_frame)

lemma disposeCall_frame:
  "disposeCall c reason s = Inr s' \<Longrightarrow>
     calls s' = calls s \<and> callObj s' = callObj s \<and> client s' = client s"
  by (auto simp: disposeCall_def Let_def split: option.splits sum.splits if_splits
      dest!: feed_registry_frame(4) feed_registry_frame(6))


lemma sessionDiffers_callObj:
  "callObj s' = callObj s \<Longrightarrow> sessionDiffers s' c p = sessionDiffers s c p"
  by (cases c) (simp_all add: sessionDiffers_def)

lemma placeDevices_frame:
  "placeDevices create member pm (callMap, changed, s) = Inr (callMap', changed', s') \<Longrightarrow>
     calls s' = calls s \<and> callObj s' = callObj s \<and> client s' = client s"
proof (induction pm arbitrary: callMap changed s)
  case Nil
  then show ?case by simp
next
  case (Cons dp pm)
  obtain d0 p0 where dp: "dp = (d0, p0)" by (cases dp)
  from Cons.prems obtain cm1 ch1 s1 where
    rest: "placeDevices create member pm (cm1, ch1, s1) = Inr (callMap', changed', s')"
    and s1: "calls s1 = calls s \<and> callObj s1 = callObj s \<and> client s1 = client s"
    by (auto simp: dp Let_def
        split: if_splits member_key.splits option.splits sum.splits
        dest!: disposeCall_frame initCall_frame)
  from Cons.IH[OF rest] s1 show ?case by simp
qed

text \<open>
  One member of a placement pass, over a participant map with distinct device ids: the slot
  of every device of the map that the local side wants and that holds no call of the
  advertised session ends up with what \<open>createNewMatrixCall\<close> returned for it; every
  other slot of the member is as before.
\<close>

lemma placeDevices_step:
  assumes "placeDevices create (MObj m) ((d0, p0) # pm) (callMap, changed, s)
             = Inr (callMap', changed', s')"
  shows "\<exists>cm1 ch1 s1.
           placeDevices create (MObj m) pm (cm1, ch1, s1) = Inr (callMap', changed', s')
         \<and> callObj s1 = callObj s \<and> client s1 = client s
         \<and> (\<forall>d. map_of cm1 d
                   = (if d = d0 \<and> sessionDiffers s (map_of callMap d0) p0
                         \<and> wantsOutgoingCall (client s) (userId m) d0
                      then create (userId m) d0 (sessionId p0)
                      else map_of callMap d))"
proof -
  have diff: "sessionDiffers s (map_of callMap d0) p0
                \<longleftrightarrow> (case map_of callMap d0 of
                       None \<Rightarrow> True
                     | Some p \<Rightarrow> getOpponentSessionId (callObj s p) \<noteq> Some (sessionId p0))"
    by (simp add: sessionDiffers_def)
  note run = assms[unfolded placeDevices.simps Let_def diff[symmetric]]
  show ?thesis
  proof (cases "sessionDiffers s (map_of callMap d0) p0
                \<and> wantsOutgoingCall (client s) (userId m) d0")
    case False
    with run have "placeDevices create (MObj m) pm (callMap, changed, s)
                     = Inr (callMap', changed', s')"
      by (auto split: if_splits)
    with False show ?thesis
      by (intro exI[of _ callMap] exI[of _ changed] exI[of _ s]) auto
  next
    case True
    with run obtain s1 where
      disp: "(case map_of callMap d0 of None \<Rightarrow> Inr s
              | Some p \<Rightarrow> disposeCall p (Some NewSession) s) = Inr s1"
      by (auto split: sum.splits)
    then have f1: "callObj s1 = callObj s \<and> client s1 = client s"
      by (auto split: option.splits dest!: disposeCall_frame)
    show ?thesis
    proof (cases "create (userId m) d0 (sessionId p0)")
      case None
      with run True disp have
        rest: "placeDevices create (MObj m) pm (AList.delete d0 callMap, True, s1)
                 = Inr (callMap', changed', s')"
        by simp
      have "\<forall>d. map_of (AList.delete d0 callMap) d
                   = (if d = d0 \<and> sessionDiffers s (map_of callMap d0) p0
                         \<and> wantsOutgoingCall (client s) (userId m) d0
                      then create (userId m) d0 (sessionId p0)
                      else map_of callMap d)"
        using True None by (simp add: delete_conv')
      with rest f1 show ?thesis
        by blast
    next
      case (Some newCall)
      with run True disp obtain s2 where
        init: "initCall newCall s1 = Inr s2" and
        rest: "placeDevices create (MObj m) pm
                 (AList.update d0 newCall callMap, True,
                  eff (Call_placeCallWithCallFeeds newCall (getLocalFeeds s2) (screensharing p0)) s2)
                 = Inr (callMap', changed', s')"
        by (auto split: sum.splits)
      let ?s3 = "eff (Call_placeCallWithCallFeeds newCall (getLocalFeeds s2) (screensharing p0)) s2"
      from initCall_frame[OF init] f1 have
        f3: "callObj ?s3 = callObj s \<and> client ?s3 = client s"
        by simp
      have "\<forall>d. map_of (AList.update d0 newCall callMap) d
                   = (if d = d0 \<and> sessionDiffers s (map_of callMap d0) p0
                         \<and> wantsOutgoingCall (client s) (userId m) d0
                      then create (userId m) d0 (sessionId p0)
                      else map_of callMap d)"
        using True Some by (simp add: update_conv')
      with rest f3 show ?thesis
        by blast
    qed
  qed
qed

lemma placeDevices_slots:
  "placeDevices create (MObj m) pm (callMap, changed, s) = Inr (callMap', changed', s') \<Longrightarrow>
   distinct (map fst pm) \<Longrightarrow>
     map_of callMap' d
       = (case map_of pm d of
            None \<Rightarrow> map_of callMap d
          | Some p \<Rightarrow>
              if sessionDiffers s (map_of callMap d) p
                 \<and> wantsOutgoingCall (client s) (userId m) d
              then create (userId m) d (sessionId p)
              else map_of callMap d)"
proof (induction pm arbitrary: callMap changed s)
  case Nil
  then show ?case by simp
next
  case (Cons dp pm)
  obtain d0 p0 where dp: "dp = (d0, p0)" by (cases dp)
  from Cons.prems(2) have fresh: "map_of pm d0 = None" and dist: "distinct (map fst pm)"
    by (auto simp: dp map_of_eq_None_iff)
  from placeDevices_step[OF Cons.prems(1)[unfolded dp]] obtain cm1 ch1 s1 where
    rest: "placeDevices create (MObj m) pm (cm1, ch1, s1) = Inr (callMap', changed', s')"
    and co: "callObj s1 = callObj s" and cl: "client s1 = client s"
    and cm1: "\<And>d. map_of cm1 d
                   = (if d = d0 \<and> sessionDiffers s (map_of callMap d0) p0
                         \<and> wantsOutgoingCall (client s) (userId m) d0
                      then create (userId m) d0 (sessionId p0)
                      else map_of callMap d)"
    by blast
  have sd: "\<And>c p. sessionDiffers s1 c p = sessionDiffers s c p"
    by (rule sessionDiffers_callObj[OF co])
  note IH = Cons.IH[OF rest dist, unfolded sd cl]
  show ?case
  proof (cases "d = d0")
    case True
    with IH fresh have "map_of callMap' d = map_of cm1 d0"
      by simp
    with True show ?thesis
      by (simp add: dp cm1)
  next
    case False
    then have "map_of cm1 d = map_of callMap d"
      by (simp add: cm1)
    with IH False show ?thesis
      by (simp add: dp split: option.splits)
  qed
qed


lemma slotCall_calls:
  "map_of (calls s') member = map_of (calls s) member \<Longrightarrow> slotCall s' member d = slotCall s member d"
  by (simp add: slotCall_def)

lemma placeMembers_frame:
  "placeMembers create view (changed, s) = Inr (changed', s') \<Longrightarrow>
     callObj s' = callObj s \<and> client s' = client s
   \<and> (\<forall>member. member \<notin> fst ` set view \<longrightarrow> map_of (calls s') member = map_of (calls s) member)"
proof (induction view arbitrary: changed s)
  case Nil
  then show ?case by simp
next
  case (Cons mp view)
  obtain member0 pm0 where mp: "mp = (member0, pm0)" by (cases mp)
  from Cons.prems obtain cm1 ch1 s1 where
    dev: "placeDevices create member0 pm0
            (case map_of (calls s) member0 of None \<Rightarrow> [] | Some m \<Rightarrow> m, changed, s)
          = Inr (cm1, ch1, s1)"
    and rest: "placeMembers create view
            (ch1, s1\<lparr>calls := (if cm1 \<noteq> [] then AList.update member0 cm1 (calls s1)
                               else AList.delete member0 (calls s1))\<rparr>) = Inr (changed', s')"
    by (auto simp: mp Let_def split: sum.splits)
  from Cons.IH[OF rest] placeDevices_frame[OF dev] show ?case
    by (auto simp: mp update_conv' delete_conv')
qed

text \<open>
  The whole pass, over a participant view whose keys are distinct at both levels: every slot
  of the view that the local side wants and that holds no call of the advertised session
  ends up with what \<open>createNewMatrixCall\<close> returned for it (no call when it returned
  none); every other slot of a walked member is as before. The retry counts play no part.
\<close>

lemma placeMembers_slots:
  "placeMembers create view (changed, s) = Inr (changed', s') \<Longrightarrow>
   distinct (map fst view) \<Longrightarrow> (\<forall>(member, pm)\<in>set view. distinct (map fst pm)) \<Longrightarrow>
   (MObj m, pm) \<in> set view \<Longrightarrow>
     slotCall s' (MObj m) d
       = (case map_of pm d of
            None \<Rightarrow> slotCall s (MObj m) d
          | Some p \<Rightarrow>
              if sessionDiffers s (slotCall s (MObj m) d) p
                 \<and> wantsOutgoingCall (client s) (userId m) d
              then create (userId m) d (sessionId p)
              else slotCall s (MObj m) d)"
proof (induction view arbitrary: changed s)
  case Nil
  then show ?case by simp
next
  case (Cons mp view)
  obtain member0 pm0 where mp: "mp = (member0, pm0)" by (cases mp)
  from Cons.prems(2) have fresh: "member0 \<notin> fst ` set view" and dist: "distinct (map fst view)"
    by (auto simp: mp)
  from Cons.prems(3) have dpm: "distinct (map fst pm0)"
    and inner: "\<forall>(member, pm)\<in>set view. distinct (map fst pm)"
    by (auto simp: mp)
  let ?cm0 = "case map_of (calls s) member0 of None \<Rightarrow> [] | Some m \<Rightarrow> m"
  from Cons.prems(1) obtain cm1 ch1 s1 where
    dev: "placeDevices create member0 pm0 (?cm0, changed, s) = Inr (cm1, ch1, s1)"
    and rest: "placeMembers create view
            (ch1, s1\<lparr>calls := (if cm1 \<noteq> [] then AList.update member0 cm1 (calls s1)
                               else AList.delete member0 (calls s1))\<rparr>) = Inr (changed', s')"
    by (auto simp: mp Let_def split: sum.splits)
  let ?s1 = "s1\<lparr>calls := (if cm1 \<noteq> [] then AList.update member0 cm1 (calls s1)
                               else AList.delete member0 (calls s1))\<rparr>"
  note F = placeDevices_frame[OF dev]
  have co: "callObj ?s1 = callObj s" and cl: "client ?s1 = client s"
    using F by simp_all
  have sd: "\<And>c p. sessionDiffers ?s1 c p = sessionDiffers s c p"
    by (rule sessionDiffers_callObj[OF co])
  show ?case
  proof (cases "MObj m = member0")
    case True
    with Cons.prems(4) fresh have pm: "pm = pm0"
      by (auto simp: mp rev_image_eqI)
    from True fresh placeMembers_frame[OF rest] have
      "map_of (calls s') (MObj m) = map_of (calls ?s1) (MObj m)"
      by simp
    then have "slotCall s' (MObj m) d = slotCall ?s1 (MObj m) d"
      by (rule slotCall_calls)
    also have "\<dots> = map_of cm1 d"
      using True by (simp add: slotCall_def update_conv' delete_conv')
    finally have a: "slotCall s' (MObj m) d = map_of cm1 d" .
    have b: "map_of (case map_of (calls s) (MObj m) of None \<Rightarrow> [] | Some m \<Rightarrow> m) d
               = slotCall s (MObj m) d"
      by (simp add: slotCall_def split: option.splits)
    note c = placeDevices_slots[OF dev[folded True] dpm, of d, unfolded b]
    show ?thesis
      unfolding a pm by (rule c)
  next
    case False
    with Cons.prems(4) have inview: "(MObj m, pm) \<in> set view"
      by (simp add: mp)
    from False F have "map_of (calls ?s1) (MObj m) = map_of (calls s) (MObj m)"
      by (auto simp: update_conv' delete_conv')
    then have sl: "slotCall ?s1 (MObj m) d = slotCall s (MObj m) d"
      by (rule slotCall_calls)
    from Cons.IH[OF rest dist inner inview, unfolded sd cl sl] show ?thesis .
  qed
qed

lemma placeOutgoingCalls_slots:
  assumes "placeOutgoingCalls create s = Inr s'"
    and "distinct (map fst (participants s))"
    and "\<forall>(member, pm)\<in>set (participants s). distinct (map fst pm)"
    and "(MObj m, pm) \<in> set (participants s)"
  shows "slotCall s' (MObj m) d
       = (case map_of pm d of
            None \<Rightarrow> slotCall s (MObj m) d
          | Some p \<Rightarrow>
              if sessionDiffers s (slotCall s (MObj m) d) p
                 \<and> wantsOutgoingCall (client s) (userId m) d
              then create (userId m) d (sessionId p)
              else slotCall s (MObj m) d)"
proof -
  from assms(1) obtain ch s1 where
    pass: "placeMembers create (participants s) (False, s) = Inr (ch, s1)"
    and s': "s' = (if ch then eff Emit_CallsChanged s1 else s1)"
    by (auto simp: placeOutgoingCalls_def split: sum.splits)
  from s' have "slotCall s' (MObj m) d = slotCall s1 (MObj m) d"
    by (simp add: slotCall_def)
  with placeMembers_slots[OF pass assms(2,3,4), of d] show ?thesis
    by simp
qed

text \<open>
  C9, as the code has it. On a retry tick over a participant view with distinct keys (those
  of a \<open>Map\<close>), the count of a slot is incremented by one exactly when the slot is in the
  view, the local side wants the outgoing call, no current call of the slot has the
  advertised session, and the count is below 3; every other count stays as it is, so no
  tick takes a count beyond 3. (Without the assumption on the keys the count still never
  decreases, never passes 3, and changes only for such a slot.) The tick runs
  \<open>placeOutgoingCalls\<close> iff some slot is counted, and otherwise changes nothing. The gate
  is on the tick, not on the slot: the pass does not read the counts, and after it every
  slot of the view that the local side wants and that held no call of the advertised
  session holds what \<open>createNewMatrixCall\<close> returned for it (no call when it returned
  none), also a slot whose count is 3. When a call reaches \<open>Connected\<close>, the count keyed
  by \<open>call.getOpponentMember()\<close> and \<open>call.getOpponentDeviceId()\<close> is cleared, and no
  other count changes.
\<close>

theorem onRetryCallLoop_counts:
  "(onRetryCallLoop create s = Inr s' \<longrightarrow>
      (\<forall>member deviceId.
          retryCount (retryCallCounts s) member deviceId
            \<le> retryCount (retryCallCounts s') member deviceId
        \<and> retryCount (retryCallCounts s') member deviceId
            \<le> max (retryCount (retryCallCounts s) member deviceId) 3
        \<and> (retryCount (retryCallCounts s') member deviceId
              \<noteq> retryCount (retryCallCounts s) member deviceId \<longrightarrow>
             retryCount (retryCallCounts s) member deviceId < 3
           \<and> (\<exists>m participantMap participant.
                 member = MObj m \<and> (member, participantMap) \<in> set (participants s)
               \<and> (deviceId, participant) \<in> set participantMap
               \<and> wantsOutgoingCall (client s) (userId m) deviceId
               \<and> sessionDiffers s (slotCall s member deviceId) participant)))
    \<and> (\<forall>m participantMap deviceId participant.
          (MObj m, participantMap) \<in> set (participants s)
        \<and> (deviceId, participant) \<in> set participantMap
        \<and> wantsOutgoingCall (client s) (userId m) deviceId
        \<and> sessionDiffers s (slotCall s (MObj m) deviceId) participant
        \<and> retryCount (retryCallCounts s) (MObj m) deviceId < 3
        \<longrightarrow> retryCount (retryCallCounts s) (MObj m) deviceId
              < retryCount (retryCallCounts s') (MObj m) deviceId)
    \<and> (distinct (map fst (participants s))
        \<and> (\<forall>(member, participantMap)\<in>set (participants s). distinct (map fst participantMap))
        \<longrightarrow> (\<forall>member deviceId.
               retryCount (retryCallCounts s') member deviceId
                 = retryCount (retryCallCounts s) member deviceId
                   + (if \<exists>m participantMap participant.
                            member = MObj m \<and> (member, participantMap) \<in> set (participants s)
                          \<and> (deviceId, participant) \<in> set participantMap
                          \<and> wantsOutgoingCall (client s) (userId m) deviceId
                          \<and> sessionDiffers s (slotCall s member deviceId) participant
                          \<and> retryCount (retryCallCounts s) member deviceId < 3
                      then 1 else 0)))
    \<and> (if \<exists>m participantMap deviceId participant.
              (MObj m, participantMap) \<in> set (participants s)
            \<and> (deviceId, participant) \<in> set participantMap
            \<and> wantsOutgoingCall (client s) (userId m) deviceId
            \<and> sessionDiffers s (slotCall s (MObj m) deviceId) participant
            \<and> retryCount (retryCallCounts s) (MObj m) deviceId < 3
        then placeOutgoingCalls create (s\<lparr>retryCallCounts := retryCallCounts s'\<rparr>) = Inr s'
        else s' = s)
    \<and> (distinct (map fst (participants s))
        \<and> (\<forall>(member, participantMap)\<in>set (participants s). distinct (map fst participantMap))
        \<and> (\<exists>m participantMap deviceId participant.
              (MObj m, participantMap) \<in> set (participants s)
            \<and> (deviceId, participant) \<in> set participantMap
            \<and> wantsOutgoingCall (client s) (userId m) deviceId
            \<and> sessionDiffers s (slotCall s (MObj m) deviceId) participant
            \<and> retryCount (retryCallCounts s) (MObj m) deviceId < 3)
        \<longrightarrow> (\<forall>m participantMap deviceId participant.
               (MObj m, participantMap) \<in> set (participants s)
             \<and> (deviceId, participant) \<in> set participantMap
             \<and> wantsOutgoingCall (client s) (userId m) deviceId
             \<longrightarrow> slotCall s' (MObj m) deviceId
                   = (if sessionDiffers s (slotCall s (MObj m) deviceId) participant
                      then create (userId m) deviceId (sessionId participant)
                      else slotCall s (MObj m) deviceId))))
   \<and> ((\<forall>(member, participantMap)\<in>set (participants s).
         \<forall>(deviceId, participant)\<in>set participantMap.
           sessionDiffers s (slotCall s member deviceId) participant \<longrightarrow>
             (\<exists>m. member = MObj m
                \<and> (wantsOutgoingCall (client s) (userId m) deviceId
                     \<longrightarrow> 3 \<le> retryCount (retryCallCounts s) member deviceId)))
       \<longrightarrow> onRetryCallLoop create s = Inr s)
   \<and> (onCallStateChanged c Connected s = Inr s'' \<longrightarrow>
        (\<forall>member deviceId.
           retryCount (retryCallCounts s'') member deviceId
             = (if member = ofOpponentMember (getOpponentMember (callObj s c))
                   \<and> deviceId = getOpponentDeviceId (callObj s c)
                then 0 else retryCount (retryCallCounts s) member deviceId)))"
proof (intro conjI impI allI)
  assume "onCallStateChanged c Connected s = Inr s''"
  then show "retryCount (retryCallCounts s'') member deviceId
             = (if member = ofOpponentMember (getOpponentMember (callObj s c))
                   \<and> deviceId = getOpponentDeviceId (callObj s c)
                then 0 else retryCount (retryCallCounts s) member deviceId)" for member deviceId
    by (rule onCallStateChanged_Connected)
next
  assume "\<forall>(member, participantMap)\<in>set (participants s).
         \<forall>(deviceId, participant)\<in>set participantMap.
           sessionDiffers s (slotCall s member deviceId) participant \<longrightarrow>
             (\<exists>m. member = MObj m
                \<and> (wantsOutgoingCall (client s) (userId m) deviceId
                     \<longrightarrow> 3 \<le> retryCount (retryCallCounts s) member deviceId))"
  then have "retryMembers s (participants s) (retryCallCounts s, False)
               = Inr (retryCallCounts s, False)"
    by (rule retryMembers_noop)
  then show "onRetryCallLoop create s = Inr s"
    by (simp add: onRetryCallLoop_def)
next
  assume run: "onRetryCallLoop create s = Inr s'"
  then obtain counts nr where
    scan: "retryMembers s (participants s) (retryCallCounts s, False) = Inr (counts, nr)"
    by (auto simp: onRetryCallLoop_def split: sum.splits)
  from run scan have counts: "retryCallCounts s' = counts"
    by (auto simp: onRetryCallLoop_def split: if_splits
        dest!: placeOutgoingCalls_retryCallCounts)
  note pass = onRetryCallLoop_pass[OF run]
  {
    fix member deviceId
    note C = retryMembers_counts[OF scan, of member deviceId]
    from C show "retryCount (retryCallCounts s) member deviceId
            \<le> retryCount (retryCallCounts s') member deviceId"
      by (simp add: counts)
    from C show "retryCount (retryCallCounts s') member deviceId
            \<le> max (retryCount (retryCallCounts s) member deviceId) 3"
      by (simp add: counts)
    assume ne: "retryCount (retryCallCounts s') member deviceId
              \<noteq> retryCount (retryCallCounts s) member deviceId"
    with C show "retryCount (retryCallCounts s) member deviceId < 3"
      unfolding counts by linarith
    from C ne show "\<exists>m participantMap participant.
                 member = MObj m \<and> (member, participantMap) \<in> set (participants s)
               \<and> (deviceId, participant) \<in> set participantMap
               \<and> wantsOutgoingCall (client s) (userId m) deviceId
               \<and> sessionDiffers s (slotCall s member deviceId) participant"
      unfolding counts by blast
  }
  {
    fix m participantMap deviceId participant
    assume q: "(MObj m, participantMap) \<in> set (participants s)
        \<and> (deviceId, participant) \<in> set participantMap
        \<and> wantsOutgoingCall (client s) (userId m) deviceId
        \<and> sessionDiffers s (slotCall s (MObj m) deviceId) participant
        \<and> retryCount (retryCallCounts s) (MObj m) deviceId < 3"
    with retryMembers_increments[OF scan, of "MObj m" participantMap deviceId participant m]
    show "retryCount (retryCallCounts s) (MObj m) deviceId
              < retryCount (retryCallCounts s') (MObj m) deviceId"
      by (simp add: counts)
  }
  {
    fix member deviceId
    assume wf: "distinct (map fst (participants s))
        \<and> (\<forall>(member, participantMap)\<in>set (participants s). distinct (map fst participantMap))"
    then have d1: "distinct (map fst (participants s))"
      and d2: "\<forall>(member, participantMap)\<in>set (participants s). distinct (map fst participantMap)"
      by simp_all
    from retryMembers_exact[OF scan d1 d2, of member deviceId]
    show "retryCount (retryCallCounts s') member deviceId
                 = retryCount (retryCallCounts s) member deviceId
                   + (if \<exists>m participantMap participant.
                            member = MObj m \<and> (member, participantMap) \<in> set (participants s)
                          \<and> (deviceId, participant) \<in> set participantMap
                          \<and> wantsOutgoingCall (client s) (userId m) deviceId
                          \<and> sessionDiffers s (slotCall s member deviceId) participant
                          \<and> retryCount (retryCallCounts s) member deviceId < 3
                      then 1 else 0)"
      unfolding counts .
  }
  show "if \<exists>m participantMap deviceId participant.
              (MObj m, participantMap) \<in> set (participants s)
            \<and> (deviceId, participant) \<in> set participantMap
            \<and> wantsOutgoingCall (client s) (userId m) deviceId
            \<and> sessionDiffers s (slotCall s (MObj m) deviceId) participant
            \<and> retryCount (retryCallCounts s) (MObj m) deviceId < 3
        then placeOutgoingCalls create (s\<lparr>retryCallCounts := retryCallCounts s'\<rparr>) = Inr s'
        else s' = s"
    using pass by (auto split: if_splits)
  fix m participantMap deviceId participant
  assume h: "distinct (map fst (participants s))
        \<and> (\<forall>(member, participantMap)\<in>set (participants s). distinct (map fst participantMap))
        \<and> (\<exists>m participantMap deviceId participant.
              (MObj m, participantMap) \<in> set (participants s)
            \<and> (deviceId, participant) \<in> set participantMap
            \<and> wantsOutgoingCall (client s) (userId m) deviceId
            \<and> sessionDiffers s (slotCall s (MObj m) deviceId) participant
            \<and> retryCount (retryCallCounts s) (MObj m) deviceId < 3)"
    and slot: "(MObj m, participantMap) \<in> set (participants s)
             \<and> (deviceId, participant) \<in> set participantMap
             \<and> wantsOutgoingCall (client s) (userId m) deviceId"
  let ?s0 = "s\<lparr>retryCallCounts := retryCallCounts s'\<rparr>"
  from h pass have placed: "placeOutgoingCalls create ?s0 = Inr s'"
    by blast
  from h have d1: "distinct (map fst (participants ?s0))"
    and d2: "\<forall>(member, pm)\<in>set (participants ?s0). distinct (map fst pm)"
    by simp_all
  from slot have inview: "(MObj m, participantMap) \<in> set (participants ?s0)"
    by simp
  from slot d2 inview have lookup: "map_of participantMap deviceId = Some participant"
    by auto
  have sl: "slotCall ?s0 (MObj m) deviceId = slotCall s (MObj m) deviceId"
    by (simp add: slotCall_def)
  have sd: "\<And>c p. sessionDiffers ?s0 c p = sessionDiffers s c p"
    by (rule sessionDiffers_callObj) simp
  have cl: "client ?s0 = client s"
    by simp
  from placeOutgoingCalls_slots[OF placed d1 d2 inview, of deviceId, unfolded sl sd cl lookup] slot
  show "slotCall s' (MObj m) deviceId
                   = (if sessionDiffers s (slotCall s (MObj m) deviceId) participant
                      then create (userId m) deviceId (sessionId participant)
                      else slotCall s (MObj m) deviceId)"
    by simp
qed

lemmas retry_defs = onRetryCallLoop_def placeOutgoingCalls_def retryCount_def setRetryCount_def
  slotCall_def sessionDiffers_def wantsOutgoingCall_def onCallStateChanged_def

theorem onRetryCallLoop_counts_witness:
  "onRetryCallLoop ex_create ex_capped = Inr ex_retried
   \<and> distinct (map fst (participants ex_capped))
   \<and> retryCount (retryCallCounts ex_capped) (MObj ex_carol) (str ''DC'') = 0
   \<and> retryCount (retryCallCounts ex_retried) (MObj ex_carol) (str ''DC'') = 1
   \<and> retryCount (retryCallCounts ex_capped) (MObj ex_bob) (str ''DB'') = 3
   \<and> retryCount (retryCallCounts ex_retried) (MObj ex_bob) (str ''DB'') = 3
   \<and> slotCall ex_retried (MObj ex_bob) (str ''DB'')
        = ex_create (str ''@b:h'') (str ''DB'') (str ''s2'')
   \<and> onRetryCallLoop ex_create ex_placed = Inr ex_placed
   \<and> onRetryCallLoop ex_create
        (ex_capped\<lparr>participants :=
           [(MObj ex_bob, [(str ''DB'', \<lparr>sessionId = str ''s2'', screensharing = False\<rparr>)])]\<rparr>)
      = Inr (ex_capped\<lparr>participants :=
           [(MObj ex_bob, [(str ''DB'', \<lparr>sessionId = str ''s2'', screensharing = False\<rparr>)])]\<rparr>)
   \<and> onCallStateChanged 2 Connected ex_accepted = Inr ex_connected
   \<and> retryCount (retryCallCounts ex_accepted) (MObj ex_carol) (str ''DC'') = 1
   \<and> retryCount (retryCallCounts ex_connected) (MObj ex_carol) (str ''DC'') = 0"
proof -
  let ?pb = "\<lparr>sessionId = str ''s2'', screensharing = False\<rparr>"
  let ?pc = "\<lparr>sessionId = str ''s3'', screensharing = False\<rparr>"
  have run: "onRetryCallLoop ex_create ex_capped = Inr ex_retried"
    by (simp add: retry_defs reconciler_defs ex_defs str_def Let_def)
  have conn: "onCallStateChanged 2 Connected ex_accepted = Inr ex_connected"
    by (simp add: retry_defs reconciler_defs ex_defs str_def Let_def)
  have wf: "distinct (map fst (participants ex_capped))
        \<and> (\<forall>(member, participantMap)\<in>set (participants ex_capped). distinct (map fst participantMap))"
    by (simp add: ex_defs str_def)
  have before: "retryCount (retryCallCounts ex_capped) (MObj ex_carol) (str ''DC'') = 0"
      "retryCount (retryCallCounts ex_capped) (MObj ex_bob) (str ''DB'') = 3"
      "retryCount (retryCallCounts ex_accepted) (MObj ex_carol) (str ''DC'') = 1"
    by (simp_all add: retry_defs ex_defs str_def)
  have carol: "(MObj ex_carol, [(str ''DC'', ?pc)]) \<in> set (participants ex_capped)
        \<and> (str ''DC'', ?pc) \<in> set [(str ''DC'', ?pc)]
        \<and> wantsOutgoingCall (client ex_capped) (userId ex_carol) (str ''DC'')
        \<and> sessionDiffers ex_capped (slotCall ex_capped (MObj ex_carol) (str ''DC'')) ?pc
        \<and> retryCount (retryCallCounts ex_capped) (MObj ex_carol) (str ''DC'') < 3"
    by (simp add: retry_defs ex_defs str_def)
  have bob: "(MObj ex_bob, [(str ''DB'', ?pb)]) \<in> set (participants ex_capped)
        \<and> (str ''DB'', ?pb) \<in> set [(str ''DB'', ?pb)]
        \<and> wantsOutgoingCall (client ex_capped) (userId ex_bob) (str ''DB'')"
      "sessionDiffers ex_capped (slotCall ex_capped (MObj ex_bob) (str ''DB'')) ?pb"
      "\<not> retryCount (retryCallCounts ex_capped) (MObj ex_bob) (str ''DB'') < 3"
    by (simp_all add: retry_defs ex_defs str_def)
  have idle: "\<forall>(member, participantMap)\<in>set (participants ex_placed).
         \<forall>(deviceId, participant)\<in>set participantMap.
           sessionDiffers ex_placed (slotCall ex_placed member deviceId) participant \<longrightarrow>
             (\<exists>m. member = MObj m
                \<and> (wantsOutgoingCall (client ex_placed) (userId m) deviceId
                     \<longrightarrow> 3 \<le> retryCount (retryCallCounts ex_placed) member deviceId))"
    by (simp add: retry_defs ex_defs str_def)
  let ?alone = "ex_capped\<lparr>participants := [(MObj ex_bob, [(str ''DB'', ?pb)])]\<rparr>"
  have capped: "\<forall>(member, participantMap)\<in>set (participants ?alone).
         \<forall>(deviceId, participant)\<in>set participantMap.
           sessionDiffers ?alone (slotCall ?alone member deviceId) participant \<longrightarrow>
             (\<exists>m. member = MObj m
                \<and> (wantsOutgoingCall (client ?alone) (userId m) deviceId
                     \<longrightarrow> 3 \<le> retryCount (retryCallCounts ?alone) member deviceId))"
    by (simp add: retry_defs ex_defs str_def)
  note stopped = onRetryCallLoop_counts[of ex_create ?alone ?alone 2 ?alone,
      THEN conjunct2, THEN conjunct1, THEN mp, OF capped]
  note tick = onRetryCallLoop_counts[of ex_create ex_capped ex_retried 2 ex_capped,
      THEN conjunct1, THEN mp, OF run]
  note exact = tick[THEN conjunct2, THEN conjunct2, THEN conjunct1, THEN mp, OF wf, rule_format]
  have c1: "retryCount (retryCallCounts ex_retried) (MObj ex_carol) (str ''DC'') = 1"
    using exact[of "MObj ex_carol" "str ''DC''"] carol before(1) by auto
  have b1: "retryCount (retryCallCounts ex_retried) (MObj ex_bob) (str ''DB'') = 3"
    using exact[of "MObj ex_bob" "str ''DB''"] bob(3) before(2) by auto
  have some: "\<exists>m participantMap deviceId participant.
              (MObj m, participantMap) \<in> set (participants ex_capped)
            \<and> (deviceId, participant) \<in> set participantMap
            \<and> wantsOutgoingCall (client ex_capped) (userId m) deviceId
            \<and> sessionDiffers ex_capped (slotCall ex_capped (MObj m) deviceId) participant
            \<and> retryCount (retryCallCounts ex_capped) (MObj m) deviceId < 3"
    using carol by blast
  note placed = tick[THEN conjunct2, THEN conjunct2, THEN conjunct2, THEN conjunct2, THEN mp,
      OF conjI[OF wf[THEN conjunct1] conjI[OF wf[THEN conjunct2] some]], rule_format, OF bob(1)]
  have b2: "slotCall ex_retried (MObj ex_bob) (str ''DB'')
              = ex_create (str ''@b:h'') (str ''DB'') (str ''s2'')"
    using placed bob(2) by (simp add: ex_bob_def)
  note noop = onRetryCallLoop_counts[of ex_create ex_placed ex_placed 2 ex_placed,
      THEN conjunct2, THEN conjunct1, THEN mp, OF idle]
  note cleared = onRetryCallLoop_counts[of ex_create ex_accepted ex_accepted 2 ex_connected,
      THEN conjunct2, THEN conjunct2, THEN mp, OF conn, rule_format, of "MObj ex_carol" "str ''DC''"]
  have c2: "retryCount (retryCallCounts ex_connected) (MObj ex_carol) (str ''DC'') = 0"
    using cleared by (simp add: ex_defs str_def)
  from run wf before c1 b1 b2 noop stopped conn c2 show ?thesis
    by simp
qed

text \<open>
  The claim as the spec states it fails where another slot still has retries left. The slot
  of \<open>(@b:h, DB)\<close> has used its three retries and has no call; the slot of \<open>(@c:h, DC)\<close>
  has none counted. The tick counts one for \<open>DC\<close> and runs the placement pass, which
  creates and places a call (object 1) for the slot of \<open>DB\<close> as well.
\<close>

theorem onRetryCallLoop_counts_counterexample:
  "onRetryCallLoop ex_create ex_capped = Inr ex_retried
   \<and> retryCount (retryCallCounts ex_capped) (MObj ex_bob) (str ''DB'') = 3
   \<and> slotCall ex_capped (MObj ex_bob) (str ''DB'') = None
   \<and> slotCall ex_retried (MObj ex_bob) (str ''DB'') = Some 1
   \<and> Call_placeCallWithCallFeeds 1 [0] False \<in> set (effects ex_retried)"
  by (simp add: retry_defs reconciler_defs ex_defs str_def Let_def)

section \<open>Directionality\<close>

text \<open>
  C2. Evaluated at the local pair, \<open>wantsOutgoingCall\<close> of a remote pair holds iff the
  remote user id is greater, or the user ids are equal and the remote device id is
  greater (lexicographic comparison of code units). Of two devices with distinct
  (user id, device id) pairs exactly one wants to call the other, and the relation is
  transitive: the rule is a strict total order on the pairs, so every pair of devices has
  exactly one originator.
\<close>

theorem wantsOutgoingCall_total_order:
  "(wantsOutgoingCall l (getUserId r) (getDeviceId r) \<longleftrightarrow>
      getUserId r > getUserId l \<or> (getUserId r = getUserId l \<and> getDeviceId r > getDeviceId l))
   \<and> ((getUserId l, getDeviceId l) \<noteq> (getUserId r, getDeviceId r) \<longrightarrow>
      (wantsOutgoingCall l (getUserId r) (getDeviceId r)
         \<noteq> wantsOutgoingCall r (getUserId l) (getDeviceId l)))
   \<and> \<not> (wantsOutgoingCall l (getUserId r) (getDeviceId r)
         \<and> wantsOutgoingCall r (getUserId l) (getDeviceId l))
   \<and> (wantsOutgoingCall l (getUserId r) (getDeviceId r)
         \<and> wantsOutgoingCall r (getUserId t) (getDeviceId t)
       \<longrightarrow> wantsOutgoingCall l (getUserId t) (getDeviceId t))"
  unfolding wantsOutgoingCall_def Let_def by auto

theorem wantsOutgoingCall_total_order_witness:
  "(str ''@a:h'', str ''DA'') \<noteq> (str ''@b:h'', str ''DB'')
   \<and> wantsOutgoingCall \<lparr>getUserId = str ''@a:h'', getDeviceId = str ''DA'', getSessionId = str ''s1''\<rparr>
        (str ''@b:h'') (str ''DB'')
   \<and> \<not> wantsOutgoingCall \<lparr>getUserId = str ''@b:h'', getDeviceId = str ''DB'', getSessionId = str ''s2''\<rparr>
        (str ''@a:h'') (str ''DA'')
   \<and> wantsOutgoingCall \<lparr>getUserId = str ''@b:h'', getDeviceId = str ''DB'', getSessionId = str ''s2''\<rparr>
        (str ''@b:h'') (str ''DC'')
   \<and> wantsOutgoingCall \<lparr>getUserId = str ''@a:h'', getDeviceId = str ''DA'', getSessionId = str ''s1''\<rparr>
        (str ''@b:h'') (str ''DC'')"
  using wantsOutgoingCall_total_order
    [of "\<lparr>getUserId = str ''@a:h'', getDeviceId = str ''DA'', getSessionId = str ''s1''\<rparr>"
        "\<lparr>getUserId = str ''@b:h'', getDeviceId = str ''DB'', getSessionId = str ''s2''\<rparr>"
        "\<lparr>getUserId = str ''@b:h'', getDeviceId = str ''DC'', getSessionId = str ''s3''\<rparr>"]
  by (simp add: str_def wantsOutgoingCall_def)

end
